(* ===== verification/Prelude.thy ===== *)
theory Prelude
  imports Main "HOL-Library.List_Lexorder" "HOL-Library.Char_ord" "HOL-Library.Multiset"
begin

text \<open>
  Shared vocabulary of the blockchain development: the Python exceptions the
  node can raise, the type of the SHA-256 hex digest the code calls through
  \<^verbatim>\<open>hashlib\<close>, Python's decimal formatting of integers (\<^verbatim>\<open>str(int)\<close>, used by
  the f-string of \<^verbatim>\<open>valid_proof\<close> and by \<^verbatim>\<open>json.dumps\<close>) with its parser and
  round trip, and the generic list lemmas the component theories share.
\<close>

named_theorems ascii_intros "facts that a produced text is 7-bit ASCII"
named_theorems eval_simps "equations that evaluate the model on concrete inputs"

section \<open>Errors, digests and floats\<close>

text \<open>The exceptions of the source that the model keeps as values.\<close>

datatype py_error =
    IndexError          \<comment> \<open>\<^verbatim>\<open>chain[0]\<close> or \<^verbatim>\<open>chain[-1]\<close> on an empty list\<close>
  | KeyError            \<comment> \<open>a missing key of a request body\<close>
  | TypeError           \<comment> \<open>an operation on a value of the wrong type\<close>
  | AttributeError      \<comment> \<open>\<^verbatim>\<open>.get\<close> or \<^verbatim>\<open>urlparse\<close> on a value that lacks it\<close>
  | ConnectionError     \<comment> \<open>\<^verbatim>\<open>requests.get\<close> could not reach the peer\<close>
  | ValueError          \<comment> \<open>\<^verbatim>\<open>urlparse\<close> on an address with unbalanced brackets\<close>

text \<open>
  \<^verbatim>\<open>hashlib.sha256(s.encode()).hexdigest()\<close> is a function from the text to its
  hexadecimal digest. The library is not part of the repository, so every
  operation that hashes takes this function as a parameter \<open>H\<close>; the theorems
  hold for every such function, and the witnesses run them on a small
  executable one.
\<close>

type_synonym hasher = "string \<Rightarrow> string"

text \<open>
  An executable stand-in digest for the examples: four zeros exactly when the
  text ends in the digit 7. The theorems never depend on it.
\<close>

definition toy_sha :: hasher where
  "toy_sha s = (if s \<noteq> [] \<and> last s = CHR ''7'' then ''0000'' else ''ffff'') @ s"

declare toy_sha_def [eval_simps]

text \<open>
  A Python float (the block timestamp, from \<^verbatim>\<open>time()\<close>) is kept as the text
  \<^verbatim>\<open>repr\<close> prints for it: that text is all that \<^verbatim>\<open>json.dumps\<close> and the hash see.
\<close>

type_synonym pyfloat = string

section \<open>Decimal formatting of integers\<close>

text \<open>\<^verbatim>\<open>str(n)\<close> for a non-negative integer: its decimal digits, most significant first.\<close>

fun dec_digits :: "nat \<Rightarrow> string" where
  "dec_digits n =
     (if n < 10 then [char_of (48 + n)]
      else dec_digits (n div 10) @ [char_of (48 + n mod 10)])"

declare dec_digits.simps [simp del, eval_simps]
declare char_of_eq_iff [eval_simps]

text \<open>\<^verbatim>\<open>str(i)\<close> for any Python integer: a minus sign before the digits of \<open>|i|\<close>.\<close>

definition str_int :: "int \<Rightarrow> string" where
  "str_int i = (if i < 0 then CHR ''-'' # dec_digits (nat (- i)) else dec_digits (nat i))"

declare str_int_def [eval_simps]

text \<open>Reading decimal digits back (\<^verbatim>\<open>int(s)\<close> on a digit string).\<close>

definition is_digit :: "char \<Rightarrow> bool" where
  "is_digit c \<longleftrightarrow> (48::nat) \<le> of_char c \<and> of_char c < (58::nat)"

fun digits_value_acc :: "nat \<Rightarrow> string \<Rightarrow> nat" where
  "digits_value_acc acc [] = acc"
| "digits_value_acc acc (c # cs) = digits_value_acc (10 * acc + (of_char c - 48)) cs"

definition digits_value :: "string \<Rightarrow> nat" where
  "digits_value s = digits_value_acc 0 s"

definition int_of_str :: "string \<Rightarrow> int" where
  "int_of_str s =
     (case s of c # cs \<Rightarrow> if c = CHR ''-'' then - int (digits_value cs) else int (digits_value s)
      | [] \<Rightarrow> 0)"

definition ascii :: "string \<Rightarrow> bool" where
  "ascii s \<longleftrightarrow> list_all (\<lambda>c. of_char c < (128::nat)) s"

text \<open>Python's \<^verbatim>\<open>', '.join(parts)\<close>.\<close>

fun join :: "string \<Rightarrow> string list \<Rightarrow> string" where
  "join sep [] = []"
| "join sep [x] = x"
| "join sep (x # y # zs) = x @ sep @ join sep (y # zs)"

text \<open>Python's \<^verbatim>\<open>k in s\<close> on strings: \<open>k\<close> occurs in \<open>s\<close> as a contiguous piece.\<close>

definition str_contains :: "string \<Rightarrow> string \<Rightarrow> bool" where
  "str_contains s k \<longleftrightarrow> list_ex (\<lambda>i. take (length k) (drop i s) = k) [0..<Suc (length s)]"

text \<open>Sequencing of computations that may raise: the first exception is the result.\<close>

definition bind_sum :: "'e + 'a \<Rightarrow> ('a \<Rightarrow> 'e + 'b) \<Rightarrow> 'e + 'b" where
  "bind_sum m f = (case m of Inl e \<Rightarrow> Inl e | Inr a \<Rightarrow> f a)"

declare str_contains_def [eval_simps] bind_sum_def [eval_simps] is_digit_def [eval_simps]

section \<open>Lemmas on the decimal formatting\<close>

lemma dec_digits_not_Nil [simp]: "dec_digits n \<noteq> []"
  by (subst dec_digits.simps) simp

lemma dec_digits_is_digit: "list_all is_digit (dec_digits n)"
proof (induction n rule: dec_digits.induct)
  case (1 n)
  then show ?case
    by (subst dec_digits.simps) (auto simp: is_digit_def list_all_iff)
qed

lemma digits_value_acc_append:
  "digits_value_acc acc (xs @ ys) = digits_value_acc (digits_value_acc acc xs) ys"
  by (induction xs arbitrary: acc) simp_all

text \<open>The round trip: the digits \<^verbatim>\<open>str\<close> prints read back as the number.\<close>

lemma digits_value_dec_digits [simp]: "digits_value (dec_digits n) = n"
proof (induction n rule: dec_digits.induct)
  case (1 n)
  show ?case
  proof (cases "n < 10")
    case True
    then show ?thesis
      by (subst dec_digits.simps) (simp add: digits_value_def)
  next
    case False
    then have "digits_value (dec_digits (n div 10)) = n div 10" using "1" by simp
    with False show ?thesis
      by (subst dec_digits.simps)
         (simp add: digits_value_def digits_value_acc_append)
  qed
qed

lemma dec_digits_inj: "dec_digits m = dec_digits n \<Longrightarrow> m = n"
  by (metis digits_value_dec_digits)

lemma dec_digits_hd_not_minus: "hd (dec_digits n) \<noteq> CHR ''-''"
  using dec_digits_is_digit [of n] dec_digits_not_Nil [of n]
  by (cases "dec_digits n") (auto simp: is_digit_def)

lemma int_of_str_str_int [simp]: "int_of_str (str_int i) = i"
proof (cases "i < 0")
  case True
  then show ?thesis by (simp add: str_int_def int_of_str_def)
next
  case False
  obtain c cs where cs: "dec_digits (nat i) = c # cs"
    using dec_digits_not_Nil [of "nat i"] by (cases "dec_digits (nat i)") auto
  with dec_digits_hd_not_minus [of "nat i"] have "c \<noteq> CHR ''-''" by simp
  moreover have "digits_value (c # cs) = nat i"
    using digits_value_dec_digits [of "nat i"] cs by simp
  ultimately show ?thesis
    using False cs by (simp add: str_int_def int_of_str_def)
qed

lemma str_int_inj: "str_int i = str_int j \<Longrightarrow> i = j"
  by (metis int_of_str_str_int)

lemma str_int_not_Nil [simp]: "str_int i \<noteq> []"
  by (simp add: str_int_def)

lemma ascii_append [simp]: "ascii (xs @ ys) \<longleftrightarrow> ascii xs \<and> ascii ys"
  by (simp add: ascii_def)

lemma ascii_Cons [simp]: "ascii (c # cs) \<longleftrightarrow> of_char c < (128::nat) \<and> ascii cs"
  by (simp add: ascii_def)

lemma ascii_Nil [simp]: "ascii []"
  by (simp add: ascii_def)

lemma ascii_concat [simp]: "ascii (concat xss) \<longleftrightarrow> list_all ascii xss"
  by (induction xss) simp_all

lemma ascii_dec_digits [ascii_intros]: "ascii (dec_digits n)"
  using dec_digits_is_digit [of n]
  by (auto simp: ascii_def is_digit_def list_all_iff)

lemma ascii_str_int [ascii_intros]: "ascii (str_int i)"
  by (simp add: str_int_def ascii_intros)

section \<open>Lists\<close>

lemma ascii_join [ascii_intros]:
  "ascii sep \<Longrightarrow> list_all ascii xs \<Longrightarrow> ascii (join sep xs)"
  by (induction sep xs rule: join.induct) simp_all

text \<open>Sorting by a key commutes with a map that keeps the key.\<close>

lemma insort_key_map_key:
  "(\<And>x. f (g x) = f x) \<Longrightarrow> insort_key f (g x) (map g ys) = map g (insort_key f x ys)"
  by (induction ys) simp_all

lemma sort_key_map_key:
  "(\<And>x. f (g x) = f x) \<Longrightarrow> sort_key f (map g xs) = map g (sort_key f xs)"
  by (induction xs) (simp_all add: insort_key_map_key)

lemma sort_key_idem [simp]: "sort_key f (sort_key f xs) = sort_key f xs"
  by (rule sort_key_id_if_sorted) (rule sorted_sort_key)

text \<open>Lists with distinct keys and the same items sort to the same list.\<close>

lemma sort_key_perm_distinct:
  "distinct (map f xs) \<Longrightarrow> mset xs = mset ys \<Longrightarrow> sort_key f xs = sort_key f ys"
  by (rule sort_key_eq_sort_key) (simp_all add: distinct_map)

lemma takeWhile_map_Inr [simp]: "takeWhile (Not \<circ> isl) (map Inr xs) = map Inr xs"
  by (induction xs) simp_all

lemma dropWhile_map_Inr [simp]: "dropWhile (Not \<circ> isl) (map Inr xs) = []"
  by (induction xs) simp_all

end
