(* ===== verification/Json.thy ===== *)
theory Json
  imports Prelude
begin

text \<open>
  JSON values and Python's encoder \<^verbatim>\<open>json.dumps(obj, sort_keys=True)\<close> with its
  default settings (\<^verbatim>\<open>ensure_ascii=True\<close>, separators \<^verbatim>\<open>', '\<close> and \<^verbatim>\<open>': '\<close>).
  \<^verbatim>\<open>Blockchain.hash\<close> digests this text, so the encoder decides which blocks hash
  alike. A Python dict is an association list in insertion order; the encoder
  sorts its items by key. The lemmas show that the text is ASCII (so
  \<^verbatim>\<open>.encode()\<close> adds nothing) and that it depends on a dict's items only, not on
  the order in which they were inserted, at any depth.
\<close>

datatype json =
    JNull
  | JBool bool
  | JInt int
  | JFloat pyfloat
  | JStr string
  | JList "json list"
  | JObj "(string \<times> json) list"

section \<open>The encoder\<close>

text \<open>One hexadecimal digit, lower case, as \<^verbatim>\<open>'{0:04x}'.format(n)\<close> prints it.\<close>

definition hex_digit :: "nat \<Rightarrow> char" where
  "hex_digit d = (if d < 10 then char_of (48 + d) else char_of (87 + d))"

text \<open>
  \<^verbatim>\<open>py_encode_basestring_ascii\<close>: the two-character escapes of \<^verbatim>\<open>ESCAPE_DCT\<close>,
  printable ASCII (space to tilde) as it is, every other character as
  \<^verbatim>\<open>\\u00XX\<close>.
\<close>

definition escape_char :: "char \<Rightarrow> string" where
  "escape_char c =
     (if c = CHR 0x5C then [CHR 0x5C, CHR 0x5C]
      else if c = CHR 0x22 then [CHR 0x5C, CHR 0x22]
      else if c = CHR 0x08 then [CHR 0x5C, CHR ''b'']
      else if c = CHR 0x0C then [CHR 0x5C, CHR ''f'']
      else if c = CHR 0x0A then [CHR 0x5C, CHR ''n'']
      else if c = CHR 0x0D then [CHR 0x5C, CHR ''r'']
      else if c = CHR 0x09 then [CHR 0x5C, CHR ''t'']
      else if (32::nat) \<le> of_char c \<and> of_char c \<le> (126::nat) then [c]
      else [CHR 0x5C, CHR ''u'', CHR ''0'', CHR ''0'',
            hex_digit (of_char c div 16), hex_digit (of_char c mod 16)])"

definition dumps_str :: "string \<Rightarrow> string" where
  "dumps_str s = CHR 0x22 # concat (map escape_char s) @ [CHR 0x22]"

text \<open>
  \<^verbatim>\<open>json.dumps(obj, sort_keys=True, separators=(item_sep, key_sep))\<close>.
  Its default separators are \<^verbatim>\<open>', '\<close> and \<^verbatim>\<open>': '\<close>, which is the
  \<open>dumps\<close> that \<^verbatim>\<open>Blockchain.hash\<close> uses.
\<close>

fun dumps_with :: "string \<Rightarrow> string \<Rightarrow> json \<Rightarrow> string" where
  "dumps_with isep ksep JNull = ''null''"
| "dumps_with isep ksep (JBool b) = (if b then ''true'' else ''false'')"
| "dumps_with isep ksep (JInt i) = str_int i"
| "dumps_with isep ksep (JFloat r) = r"
| "dumps_with isep ksep (JStr s) = dumps_str s"
| "dumps_with isep ksep (JList xs) = CHR ''['' # join isep (map (dumps_with isep ksep) xs) @ '']''"
| "dumps_with isep ksep (JObj kvs) =
     CHR ''{'' # join isep (map (\<lambda>(k, v). dumps_str k @ ksep @ dumps_with isep ksep v)
                                 (sort_key fst kvs))
       @ ''}''"

abbreviation dumps :: "json \<Rightarrow> string" where
  "dumps \<equiv> dumps_with '', '' '': ''"

section \<open>Number literals\<close>

text \<open>
  The three groups of the decoder's \<^verbatim>\<open>NUMBER_RE\<close>,
  \<^verbatim>\<open>(-?(?:0|[1-9]\d*))(\.\d+)?([eE][-+]?\d+)?\<close>: each returns the text it
  matched and the rest of the input.
\<close>

definition scan_int :: "string \<Rightarrow> (string \<times> string) option" where
  "scan_int s =
     (let (sg, t) = (if take 1 s = ''-'' then (''-'', drop 1 s) else ([], s)) in
      case t of
        [] \<Rightarrow> None
      | c # r \<Rightarrow>
          if c = CHR ''0'' then Some (sg @ [c], r)
          else if is_digit c then Some (sg @ c # takeWhile is_digit r, dropWhile is_digit r)
          else None)"

definition scan_frac :: "string \<Rightarrow> string \<times> string" where
  "scan_frac s =
     (case s of
        c # d # r \<Rightarrow>
          if c = CHR ''.'' \<and> is_digit d then (c # d # takeWhile is_digit r, dropWhile is_digit r)
          else ([], s)
      | _ \<Rightarrow> ([], s))"

definition scan_exp :: "string \<Rightarrow> string \<times> string" where
  "scan_exp s =
     (case s of
        e # r \<Rightarrow>
          if e \<in> set ''eE'' then
            (let (sg, t) = (if take 1 r = ''+'' \<or> take 1 r = ''-'' then (take 1 r, drop 1 r) else ([], r))
             in case t of
                  d # u \<Rightarrow>
                    if is_digit d then (e # sg @ d # takeWhile is_digit u, dropWhile is_digit u)
                    else ([], s)
                | [] \<Rightarrow> ([], s))
          else ([], s)
      | [] \<Rightarrow> ([], s))"

text \<open>
  \<^verbatim>\<open>match_number\<close>: an integer when there is neither a fraction nor an
  exponent, otherwise a float. Python then computes \<^verbatim>\<open>float(text)\<close>; a float is
  represented here by the text the encoder prints for it, so the literal is kept
  as it is, which is that text whenever the literal is one the encoder printed
  (Python's \<^verbatim>\<open>repr\<close> of a float reads back to the same float).
\<close>

definition parse_number :: "string \<Rightarrow> (json \<times> string) option" where
  "parse_number s =
     (case scan_int s of
        None \<Rightarrow> None
      | Some (i, r) \<Rightarrow>
          (let (f, r1) = scan_frac r; (e, r2) = scan_exp r1 in
           if f = [] \<and> e = [] then Some (JInt (int_of_str i), r) else Some (JFloat (i @ f @ e), r2)))"

text \<open>
  The text of a float as the encoder prints it: a JSON number with a fraction
  or an exponent (every finite \<^verbatim>\<open>repr\<close>), or one of Python's names for the
  non-finite floats.
\<close>

definition float_text :: "string \<Rightarrow> bool" where
  "float_text r \<longleftrightarrow>
     r \<in> {''NaN'', ''Infinity'', ''-Infinity''} \<or> parse_number r = Some (JFloat r, [])"

text \<open>The characters a number literal is written with.\<close>

definition num_char :: "char \<Rightarrow> bool" where
  "num_char c \<longleftrightarrow> is_digit c \<or> c \<in> set ''-+.eE''"

declare scan_int_def [eval_simps] scan_frac_def [eval_simps] scan_exp_def [eval_simps]
  parse_number_def [eval_simps] float_text_def [eval_simps]

text \<open>
  A value Python can produce: the keys of every dict are distinct, and a float
  is a text the encoder prints for a float.
\<close>

fun wf_json :: "json \<Rightarrow> bool" where
  "wf_json (JFloat r) = float_text r"
| "wf_json (JList xs) = list_all wf_json xs"
| "wf_json (JObj kvs) = (distinct (map fst kvs) \<and> list_all (\<lambda>(k, v). wf_json v) kvs)"
| "wf_json _ = True"

text \<open>
  The canonical form: every dict with its items sorted by key, at every depth.
  Two well-formed values with the same canonical form are equal as Python
  values (same keys, equal values).
\<close>

fun canon :: "json \<Rightarrow> json" where
  "canon (JList xs) = JList (map canon xs)"
| "canon (JObj kvs) = JObj (sort_key fst (map (\<lambda>(k, v). (k, canon v)) kvs))"
| "canon j = j"

section \<open>Python operations on a decoded body\<close>

text \<open>
  \<^verbatim>\<open>k in values\<close> for a value \<^verbatim>\<open>request.get_json()\<close> returned: key
  membership in a dict, element equality in a list, a substring test in a
  string, and \<^verbatim>\<open>TypeError\<close> (not iterable) for numbers, booleans and
  \<^verbatim>\<open>None\<close>.
\<close>

definition py_in :: "string \<Rightarrow> json \<Rightarrow> py_error + bool" where
  "py_in k v =
     (case v of
        JObj kvs \<Rightarrow> Inr (k \<in> set (map fst kvs))
      | JList xs \<Rightarrow> Inr (JStr k \<in> set xs)
      | JStr s \<Rightarrow> Inr (str_contains s k)
      | _ \<Rightarrow> Inl TypeError)"

text \<open>
  \<^verbatim>\<open>values[k]\<close>: the decoder keeps the last of repeated keys; a list or a
  string indexed by a string, or a scalar, raises \<^verbatim>\<open>TypeError\<close>.
\<close>

definition py_getitem :: "json \<Rightarrow> string \<Rightarrow> py_error + json" where
  "py_getitem v k =
     (case v of
        JObj kvs \<Rightarrow> (case map_of (rev kvs) k of None \<Rightarrow> Inl KeyError | Some x \<Rightarrow> Inr x)
      | _ \<Rightarrow> Inl TypeError)"

text \<open>\<^verbatim>\<open>all(k in values for k in ks)\<close>, which stops at the first false test.\<close>

fun py_all_in :: "string list \<Rightarrow> json \<Rightarrow> py_error + bool" where
  "py_all_in [] v = Inr True"
| "py_all_in (k # ks) v =
     (case py_in k v of Inl e \<Rightarrow> Inl e | Inr b \<Rightarrow> if b then py_all_in ks v else Inr False)"

declare py_in_def [eval_simps] py_getitem_def [eval_simps]

section \<open>The scanner splits its input\<close>

lemma takeWhile_digits_num [simp]: "list_all num_char (takeWhile is_digit r)"
  by (auto simp: list_all_iff num_char_def dest: set_takeWhileD)

lemma scan_int_split: "scan_int s = Some (i, r) \<Longrightarrow> s = i @ r \<and> list_all num_char i"
proof -
  assume a: "scan_int s = Some (i, r)"
  obtain sg t where st: "(if take 1 s = ''-'' then (''-'', drop 1 s) else ([], s)) = (sg, t)"
    by fastforce
  then have s: "s = sg @ t" by (cases s) (auto split: if_splits)
  from st have "sg = [] \<or> sg = ''-''" by (auto split: if_splits)
  then have sg: "list_all num_char sg" by (auto simp: num_char_def)
  from a st obtain c u where t: "t = c # u" by (cases t) (simp_all add: scan_int_def)
  from a st t s sg show ?thesis
    by (auto simp: scan_int_def num_char_def is_digit_def split: if_splits)
qed

lemma scan_frac_split: "scan_frac s = (f, r) \<Longrightarrow> s = f @ r \<and> list_all num_char f"
  by (auto simp: scan_frac_def num_char_def split: list.splits if_splits)

lemma scan_exp_split: "scan_exp s = (e, r) \<Longrightarrow> s = e @ r \<and> list_all num_char e"
proof -
  assume a: "scan_exp s = (e, r)"
  show ?thesis
  proof (cases s)
    case (Cons x rest)
    obtain sg t where st: "(if take 1 rest = ''+'' \<or> take 1 rest = ''-''
                           then (take 1 rest, drop 1 rest) else ([], rest)) = (sg, t)"
      by fastforce
    then have "rest = sg @ t" by (cases rest) (auto split: if_splits)
    from st have "sg = [] \<or> sg = ''+'' \<or> sg = ''-''" by (auto split: if_splits)
    then have "list_all num_char sg" by (auto simp: num_char_def)
    with a st Cons \<open>rest = sg @ t\<close> show ?thesis
      by (auto simp: scan_exp_def num_char_def split: if_splits list.splits)
  qed (use a in \<open>simp add: scan_exp_def\<close>)
qed

lemma parse_number_JFloat:
  "parse_number s = Some (JFloat r, t) \<Longrightarrow> s = r @ t \<and> list_all num_char r"
  by (auto simp: parse_number_def Let_def split: option.splits prod.splits if_splits
      dest!: scan_int_split scan_frac_split scan_exp_split)

lemma ascii_num: "list_all num_char r \<Longrightarrow> ascii r"
  by (auto simp: ascii_def list_all_iff num_char_def is_digit_def)

lemma ascii_float_text [ascii_intros]: "float_text r \<Longrightarrow> ascii r"
  by (auto simp: float_text_def dest!: parse_number_JFloat intro: ascii_num)

section \<open>The text is ASCII\<close>

lemma ascii_hex_digit: "d < 16 \<Longrightarrow> of_char (hex_digit d) < (128::nat)"
  by (simp add: hex_digit_def)

lemma ascii_escape_char [ascii_intros]: "ascii (escape_char c)"
proof -
  have "of_char c div 16 < (16::nat)"
    using nat_of_char_less_256 [of c] by linarith
  then show ?thesis
    by (simp add: escape_char_def ascii_hex_digit)
qed

lemma ascii_dumps_str [ascii_intros]: "ascii (dumps_str s)"
  by (simp add: dumps_str_def list_all_iff ascii_escape_char)

text \<open>
  \<^verbatim>\<open>ensure_ascii\<close>: the encoder prints only ASCII, so the UTF-8 bytes that
  \<^verbatim>\<open>.encode()\<close> hands to SHA-256 are the characters of the model's text.
\<close>

lemma ascii_dumps_with [ascii_intros]:
  "ascii isep \<Longrightarrow> ascii ksep \<Longrightarrow> wf_json j \<Longrightarrow> ascii (dumps_with isep ksep j)"
proof (induction isep ksep j rule: dumps_with.induct)
  case (6 isep ksep xs)
  then show ?case by (auto intro!: ascii_join simp: list_all_iff)
next
  case (7 isep ksep kvs)
  have "ascii (dumps_with isep ksep v)" if "(k, v) \<in> set kvs" for k v
    using 7 that by (fastforce simp: list_all_iff)
  then show ?case
    using "7.prems"(1,2) by (auto intro!: ascii_join simp: list_all_iff ascii_dumps_str)
qed (simp_all add: ascii_intros)

lemma ascii_dumps [ascii_intros]: "wf_json j \<Longrightarrow> ascii (dumps j)"
  by (simp add: ascii_dumps_with)

section \<open>The text does not depend on insertion order\<close>

lemma canon_map_key:
  fixes g :: "json \<Rightarrow> json"
  shows "sort_key fst (map (\<lambda>(k, v). (k, g v)) kvs) = map (\<lambda>(k, v). (k, g v)) (sort_key fst kvs)"
  using sort_key_map_key [of fst "\<lambda>(k, v). (k, g v)" kvs] by (simp add: split_beta)

text \<open>The encoder prints a value and its canonical form alike.\<close>

lemma dumps_canon [simp]: "dumps_with isep ksep (canon j) = dumps_with isep ksep j"
proof (induction j rule: canon.induct)
  case (1 xs)
  then show ?case by (simp cong: map_cong)
next
  case (2 kvs)
  have "map ((\<lambda>(k, v). dumps_str k @ ksep @ dumps_with isep ksep v) \<circ> (\<lambda>(k, v). (k, canon v)))
          (sort_key fst kvs)
        = map (\<lambda>(k, v). dumps_str k @ ksep @ dumps_with isep ksep v) (sort_key fst kvs)"
    by (rule map_cong) (use "2" in \<open>auto simp: split_beta\<close>)
  then show ?case by (simp add: canon_map_key del: map_eq_conv)
qed simp_all

text \<open>The canonical form is canonical.\<close>

lemma canon_idem [simp]: "canon (canon j) = canon j"
proof (induction j rule: canon.induct)
  case (1 xs)
  then show ?case by (simp cong: map_cong)
next
  case (2 kvs)
  let ?f = "\<lambda>(k, v). (k, canon v)"
  have "map (?f \<circ> ?f) (sort_key fst kvs) = map ?f (sort_key fst kvs)"
    using "2" by (auto simp: split_beta)
  then show ?case by (simp add: canon_map_key del: map_eq_conv)
qed simp_all

text \<open>
  Reordering the items of a dict (whose keys are distinct) leaves its canonical
  form unchanged; the items themselves may be reordered inside as well.
\<close>

lemma canon_JObj_perm:
  assumes "distinct (map fst kvs)"
    and "mset (map (\<lambda>(k, v). (k, canon v)) kvs) = mset (map (\<lambda>(k, v). (k, canon v)) kvs')"
  shows "canon (JObj kvs) = canon (JObj kvs')"
proof -
  have "distinct (map fst (map (\<lambda>(k, v). (k, canon v)) kvs))"
    using assms(1) by (simp add: case_prod_beta comp_def)
  then show ?thesis
    using assms(2) by (simp add: sort_key_perm_distinct)
qed

section \<open>Lemmas on the Python operations\<close>

lemma py_all_in_JObj:
  "py_all_in ks (JObj kvs) = Inr (list_all (\<lambda>k. k \<in> set (map fst kvs)) ks)"
  by (induction ks) (simp_all add: py_in_def)

lemma py_getitem_JObj:
  "k \<in> set (map fst kvs) \<Longrightarrow> py_getitem (JObj kvs) k = Inr (the (map_of (rev kvs) k))"
proof -
  assume "k \<in> set (map fst kvs)"
  then have "map_of (rev kvs) k \<noteq> None" by (simp add: map_of_eq_None_iff image_iff)
  then show ?thesis by (auto simp: py_getitem_def)
qed

lemma py_getitem_not_JObj: "\<forall>kvs. v \<noteq> JObj kvs \<Longrightarrow> py_getitem v k = Inl TypeError"
  by (cases v) (simp_all add: py_getitem_def)

lemma py_all_in_error: "py_all_in ks v = Inl e \<Longrightarrow> e = TypeError"
  by (induction ks) (auto simp: py_in_def split: json.splits if_splits)

end
