(* ===== verification/Decode.thy ===== *)
theory Decode
  imports Json
begin

text \<open>
  Python's decoder \<^verbatim>\<open>json.loads\<close>, which \<^verbatim>\<open>response.json()\<close> runs on a
  peer's reply (\<^verbatim>\<open>src/blockchain.py\<close>, lines 68--69), modelled from CPython's
  scanner (\<^verbatim>\<open>Modules/_json.c\<close>: \<^verbatim>\<open>scan_once_unicode\<close>,
  \<^verbatim>\<open>scanstring_unicode\<close>, \<^verbatim>\<open>_parse_object_unicode\<close>,
  \<^verbatim>\<open>_parse_array_unicode\<close>, \<^verbatim>\<open>_match_number_unicode\<close>) with its default,
  strict settings. A decoding error (\<^verbatim>\<open>JSONDecodeError\<close>) is \<open>None\<close>. The
  nested scanners recurse on a fuel argument that every call decreases and
  that each call pays for with at least one character of input, so
  \<open>loads\<close> starts with one more than the length of its input.
  Characters are 8-bit here: a \<^verbatim>\<open>\uXXXX\<close> escape above \<^verbatim>\<open>\u00ff\<close> is outside
  the model and decodes to \<open>None\<close>. The lemmas prove the round trip with the
  encoder of \<open>Json\<close>: decoding the text of a well-formed value gives its
  canonical form back, whatever whitespace the separators carry.
\<close>

section \<open>Whitespace, escapes and strings\<close>

definition is_ws :: "char \<Rightarrow> bool" where
  "is_ws c \<longleftrightarrow> c \<in> set [CHR 0x20, CHR 0x09, CHR 0x0A, CHR 0x0D]"

definition skip_ws :: "string \<Rightarrow> string" where
  "skip_ws s = dropWhile is_ws s"

definition hex_val :: "char \<Rightarrow> nat option" where
  "hex_val c =
     (if is_digit c then Some (of_char c - (48::nat))
      else if (97::nat) \<le> of_char c \<and> of_char c \<le> (102::nat) then Some (of_char c - (87::nat))
      else if (65::nat) \<le> of_char c \<and> of_char c \<le> (70::nat) then Some (of_char c - (55::nat))
      else None)"

text \<open>The four hexadecimal digits of a \<^verbatim>\<open>\uXXXX\<close> escape.\<close>

fun hex4 :: "string \<Rightarrow> nat option" where
  "hex4 [a, b, c, d] =
     (case (hex_val a, hex_val b, hex_val c, hex_val d) of
        (Some w, Some x, Some y, Some z) \<Rightarrow> Some (((w * 16 + x) * 16 + y) * 16 + z)
      | _ \<Rightarrow> None)"
| "hex4 _ = None"

text \<open>The one-character escapes \<^verbatim>\<open>\" \\ \/ \b \f \n \r \t\<close>.\<close>

definition simple_escape :: "char \<Rightarrow> char option" where
  "simple_escape e =
     (if e = CHR 0x22 then Some (CHR 0x22)
      else if e = CHR 0x5C then Some (CHR 0x5C)
      else if e = CHR ''/'' then Some (CHR ''/'')
      else if e = CHR ''b'' then Some (CHR 0x08)
      else if e = CHR ''f'' then Some (CHR 0x0C)
      else if e = CHR ''n'' then Some (CHR 0x0A)
      else if e = CHR ''r'' then Some (CHR 0x0D)
      else if e = CHR ''t'' then Some (CHR 0x09)
      else None)"

text \<open>
  \<^verbatim>\<open>scanstring_unicode\<close> after the opening quote: the characters up to the
  closing quote, with escapes decoded; a raw control character is an error.
\<close>

fun parse_string :: "string \<Rightarrow> (string \<times> string) option" where
  "parse_string [] = None"
| "parse_string (c # r) =
     (if c = CHR 0x22 then Some ([], r)
      else if c = CHR 0x5C then
        (case r of
           [] \<Rightarrow> None
         | e # u \<Rightarrow>
             if e = CHR ''u'' then
               (case hex4 (take 4 u) of
                  Some v \<Rightarrow>
                    if v < 256 then map_option (apfst (Cons (char_of v))) (parse_string (drop 4 u))
                    else None
                | None \<Rightarrow> None)
             else
               (case simple_escape e of
                  Some d \<Rightarrow> map_option (apfst (Cons d)) (parse_string u)
                | None \<Rightarrow> None))
      else if of_char c < (32::nat) then None
      else map_option (apfst (Cons c)) (parse_string r))"

section \<open>Values\<close>

text \<open>The constants and numbers of \<^verbatim>\<open>scan_once_unicode\<close>.\<close>

definition parse_scalar :: "string \<Rightarrow> (json \<times> string) option" where
  "parse_scalar s =
     (if take 4 s = ''null'' then Some (JNull, drop 4 s)
      else if take 4 s = ''true'' then Some (JBool True, drop 4 s)
      else if take 5 s = ''false'' then Some (JBool False, drop 5 s)
      else if take 3 s = ''NaN'' then Some (JFloat ''NaN'', drop 3 s)
      else if take 8 s = ''Infinity'' then Some (JFloat ''Infinity'', drop 8 s)
      else if take 9 s = ''-Infinity'' then Some (JFloat ''-Infinity'', drop 9 s)
      else parse_number s)"

text \<open>
  Storing a key in the dict being built: a repeated key keeps its first
  position and takes the later value.
\<close>

fun dict_set :: "(string \<times> json) list \<Rightarrow> string \<Rightarrow> json \<Rightarrow> (string \<times> json) list" where
  "dict_set [] k v = [(k, v)]"
| "dict_set ((k', v') # kvs) k v = (if k' = k then (k, v) # kvs else (k', v') # dict_set kvs k v)"

text \<open>
  \<open>parse_value\<close> is \<^verbatim>\<open>scan_once_unicode\<close> after the whitespace before a
  value; \<open>parse_array\<close> and \<open>parse_object\<close> continue a list or a dict after
  an element (a comma or the closing bracket), and \<open>parse_members\<close> reads a
  key, the colon and the value.
\<close>

function (sequential) parse_value :: "nat \<Rightarrow> string \<Rightarrow> (json \<times> string) option"
and parse_array :: "nat \<Rightarrow> json list \<Rightarrow> string \<Rightarrow> (json \<times> string) option"
and parse_members :: "nat \<Rightarrow> (string \<times> json) list \<Rightarrow> string \<Rightarrow> (json \<times> string) option"
and parse_object :: "nat \<Rightarrow> (string \<times> json) list \<Rightarrow> string \<Rightarrow> (json \<times> string) option"
where
  "parse_value 0 s = None"
| "parse_value (Suc n) s =
     (case skip_ws s of
        [] \<Rightarrow> None
      | c # r \<Rightarrow>
          if c = CHR 0x22 then map_option (apfst JStr) (parse_string r)
          else if c = CHR ''['' then
            (if take 1 (skip_ws r) = '']'' then Some (JList [], drop 1 (skip_ws r))
             else case parse_value n r of
                    None \<Rightarrow> None
                  | Some (v, r') \<Rightarrow> parse_array n [v] r')
          else if c = CHR ''{'' then
            (if take 1 (skip_ws r) = ''}'' then Some (JObj [], drop 1 (skip_ws r))
             else parse_members n [] r)
          else parse_scalar (c # r))"
| "parse_array 0 acc s = None"
| "parse_array (Suc n) acc s =
     (case skip_ws s of
        [] \<Rightarrow> None
      | c # r \<Rightarrow>
          if c = CHR '']'' then Some (JList acc, r)
          else if c = CHR '','' then
            (case parse_value n r of
               None \<Rightarrow> None
             | Some (v, r') \<Rightarrow> parse_array n (acc @ [v]) r')
          else None)"
| "parse_members 0 acc s = None"
| "parse_members (Suc n) acc s =
     (case skip_ws s of
        [] \<Rightarrow> None
      | c # r \<Rightarrow>
          if c = CHR 0x22 then
            (case parse_string r of
               None \<Rightarrow> None
             | Some (k, r1) \<Rightarrow>
                 (case skip_ws r1 of
                    [] \<Rightarrow> None
                  | d # r2 \<Rightarrow>
                      if d = CHR '':'' then
                        (case parse_value n r2 of
                           None \<Rightarrow> None
                         | Some (v, r3) \<Rightarrow> parse_object n (dict_set acc k v) r3)
                      else None))
          else None)"
| "parse_object 0 acc s = None"
| "parse_object (Suc n) acc s =
     (case skip_ws s of
        [] \<Rightarrow> None
      | c # r \<Rightarrow>
          if c = CHR ''}'' then Some (JObj acc, r)
          else if c = CHR '','' then parse_members n acc r
          else None)"
  by pat_completeness auto
termination
  by (relation "measure (case_sum (case_sum (\<lambda>(n, s). n) (\<lambda>(n, a, s). n))
       (case_sum (\<lambda>(n, a, s). n) (\<lambda>(n, a, s). n)))") auto

text \<open>
  \<^verbatim>\<open>json.loads(s)\<close>: whitespace, one value, whitespace, and nothing else
  (\<^verbatim>\<open>Extra data\<close> otherwise).
\<close>

definition loads :: "string \<Rightarrow> json option" where
  "loads s =
     (case parse_value (Suc (length s)) s of
        None \<Rightarrow> None
      | Some (j, r) \<Rightarrow> if skip_ws r = [] then Some j else None)"

text \<open>The input after a number: no further character of a number literal.\<close>

definition ends_number :: "string \<Rightarrow> bool" where
  "ends_number r \<longleftrightarrow> r = [] \<or> \<not> num_char (hd r)"

text \<open>The input after an encoded value: the end, a comma, a closing bracket or whitespace.\<close>

definition delim :: "string \<Rightarrow> bool" where
  "delim r \<longleftrightarrow> r = [] \<or> hd r \<in> set '',]}'' \<or> is_ws (hd r)"

text \<open>Separators of the form \<^verbatim>\<open>(',' + ws, ':' + ws)\<close>, as both \<^verbatim>\<open>json.dumps\<close> styles use.\<close>

definition json_seps :: "string \<Rightarrow> string \<Rightarrow> bool" where
  "json_seps isep ksep \<longleftrightarrow>
     hd isep = CHR '','' \<and> isep \<noteq> [] \<and> list_all is_ws (tl isep) \<and>
     hd ksep = CHR '':'' \<and> ksep \<noteq> [] \<and> list_all is_ws (tl ksep)"

text \<open>
  The decoder reads back the text the encoder prints for \<open>j\<close>, followed by
  any delimiter, with enough fuel.
\<close>

definition reads_back :: "string \<Rightarrow> string \<Rightarrow> json \<Rightarrow> bool" where
  "reads_back isep ksep j \<longleftrightarrow>
     (\<forall>n rest. length (dumps_with isep ksep j) \<le> n \<longrightarrow> delim rest \<longrightarrow>
        parse_value (Suc n) (dumps_with isep ksep j @ rest) = Some (canon j, rest))"

declare is_ws_def [eval_simps] skip_ws_def [eval_simps] hex_val_def [eval_simps]
  simple_escape_def [eval_simps] parse_scalar_def [eval_simps] loads_def [eval_simps]

section \<open>The decoder reads back what the encoder prints\<close>

subsection \<open>Whitespace, strings and numbers\<close>

lemma skip_ws_ws_append: "list_all is_ws w \<Longrightarrow> skip_ws (w @ s) = skip_ws s"
  by (induction w) (simp_all add: skip_ws_def)

lemma skip_ws_Cons: "\<not> is_ws c \<Longrightarrow> skip_ws (c # s) = c # s"
  by (simp add: skip_ws_def)

lemma parse_ws_append:
  assumes "list_all is_ws w"
  shows "parse_value n (w @ s) = parse_value n s"
    and "parse_array n acc (w @ s) = parse_array n acc s"
    and "parse_members n kvs (w @ s) = parse_members n kvs s"
    and "parse_object n kvs (w @ s) = parse_object n kvs s"
  using skip_ws_ws_append [OF assms] by (cases n; simp)+

lemma hex_val_hex_digit: "d < 16 \<Longrightarrow> hex_val (hex_digit d) = Some d"
  by (simp add: hex_val_def hex_digit_def is_digit_def)

lemma parse_string_u_escape:
  "parse_string (escape_char c @ rest) = map_option (apfst (Cons c)) (parse_string rest)"
  if "c \<notin> {CHR 0x5C, CHR 0x22, CHR 0x08, CHR 0x0C, CHR 0x0A, CHR 0x0D, CHR 0x09}"
    and "\<not> ((32::nat) \<le> of_char c \<and> of_char c \<le> (126::nat))"
proof -
  have lt: "of_char c div 16 < (16::nat)" "of_char c mod 16 < (16::nat)"
    using nat_of_char_less_256 [of c] by linarith+
  let ?h1 = "hex_digit (of_char c div 16)" and ?h2 = "hex_digit (of_char c mod 16)"
  have e: "escape_char c = [CHR 0x5C, CHR ''u'', CHR ''0'', CHR ''0'', ?h1, ?h2]"
    using that by (simp add: escape_char_def)
  have z: "hex_val CHR ''0'' = Some 0" by (simp add: hex_val_def is_digit_def)
  have "of_char c div 16 * 16 + of_char c mod 16 = (of_char c :: nat)" by simp
  then have "hex4 [CHR ''0'', CHR ''0'', ?h1, ?h2] = Some (of_char c)"
    using lt by (simp only: hex4.simps z hex_val_hex_digit) simp
  then show ?thesis
    using nat_of_char_less_256 [of c] by (simp add: e)
qed

lemma parse_string_escape_char:
  "parse_string (escape_char c @ rest) = map_option (apfst (Cons c)) (parse_string rest)"
proof (cases "c \<in> {CHR 0x5C, CHR 0x22, CHR 0x08, CHR 0x0C, CHR 0x0A, CHR 0x0D, CHR 0x09}")
  case True
  then show ?thesis by (auto simp: escape_char_def simple_escape_def)
next
  case notesc: False
  show ?thesis
  proof (cases "(32::nat) \<le> of_char c \<and> of_char c \<le> (126::nat)")
    case True
    with notesc have "escape_char c = [c]" by (simp add: escape_char_def)
    with True notesc show ?thesis by auto
  qed (use notesc parse_string_u_escape in blast)
qed

lemma parse_string_dumps_str:
  "parse_string (concat (map escape_char s) @ CHR 0x22 # rest) = Some (s, rest)"
  by (induction s) (simp_all add: parse_string_escape_char)

lemma ends_number_not_digit: "ends_number rest \<Longrightarrow> rest = x # r \<Longrightarrow> \<not> is_digit x"
  by (simp add: ends_number_def num_char_def)

lemma takeWhile_digit_end:
  "ends_number rest \<Longrightarrow> takeWhile is_digit (u @ rest) = takeWhile is_digit u"
proof (induction u)
  case Nil
  then show ?case by (cases rest) (auto simp: ends_number_def num_char_def)
qed simp

lemma dropWhile_digit_end:
  "ends_number rest \<Longrightarrow> dropWhile is_digit (u @ rest) = dropWhile is_digit u @ rest"
proof (induction u)
  case Nil
  then show ?case by (cases rest) (auto simp: ends_number_def num_char_def)
qed simp

lemma scan_int_append:
  "scan_int s = Some (i, t) \<Longrightarrow> ends_number rest \<Longrightarrow> scan_int (s @ rest) = Some (i, t @ rest)"
  by (cases s) (auto simp: scan_int_def takeWhile_digit_end dropWhile_digit_end
      split: if_splits list.splits)

lemma scan_frac_append:
  "scan_frac s = (f, t) \<Longrightarrow> ends_number rest \<Longrightarrow> scan_frac (s @ rest) = (f, t @ rest)"
  by (cases rest) (auto simp: scan_frac_def ends_number_def num_char_def takeWhile_digit_end
      dropWhile_digit_end split: if_splits list.splits)

lemma scan_exp_append:
  "scan_exp s = (e, t) \<Longrightarrow> ends_number rest \<Longrightarrow> scan_exp (s @ rest) = (e, t @ rest)"
proof (cases s)
  case Nil
  assume "scan_exp s = (e, t)" and "ends_number rest"
  with Nil show ?thesis
    by (cases rest) (auto simp: scan_exp_def ends_number_def num_char_def)
next
  case (Cons x r)
  assume a: "scan_exp s = (e, t)" and en: "ends_number rest"
  show ?thesis
  proof (cases "x \<in> set ''eE''")
    case False
    with a Cons have "e = [] \<and> t = s" by (simp add: scan_exp_def)
    with Cons False show ?thesis by (simp add: scan_exp_def)
  next
    case True
    have r1: "take 1 (r @ rest) = take 1 r" "drop 1 (r @ rest) = drop 1 r @ rest" if "r \<noteq> []"
      using that by (cases r; simp)+
    show ?thesis
    proof (cases r)
      case Nil
      with a Cons True en show ?thesis
        by (cases rest) (auto simp: scan_exp_def ends_number_def num_char_def)
    next
      case (Cons y r')
      show ?thesis
      proof (cases "y \<in> set ''+-''")
        case True
        with a \<open>s = x # r\<close> Cons \<open>x \<in> set ''eE''\<close> en show ?thesis
          by (cases r'; cases rest) (auto simp: scan_exp_def ends_number_def num_char_def
              takeWhile_digit_end dropWhile_digit_end)
      next
        case False
        with a \<open>s = x # r\<close> Cons \<open>x \<in> set ''eE''\<close> en show ?thesis
          by (auto simp: scan_exp_def takeWhile_digit_end dropWhile_digit_end)
      qed
    qed
  qed
qed

lemma parse_number_append:
  assumes p: "parse_number s = Some (v, t)" and en: "ends_number rest"
  shows "parse_number (s @ rest) = Some (v, t @ rest)"
proof -
  from p obtain i r where i: "scan_int s = Some (i, r)"
    by (auto simp: parse_number_def split: option.splits)
  obtain f r1 where f: "scan_frac r = (f, r1)" by fastforce
  obtain e r2 where e: "scan_exp r1 = (e, r2)" by fastforce
  from p i f e have "v = (if f = [] \<and> e = [] then JInt (int_of_str i) else JFloat (i @ f @ e))"
    and "t = (if f = [] \<and> e = [] then r else r2)"
    by (auto simp: parse_number_def Let_def split: if_splits)
  then show ?thesis
    using scan_int_append [OF i en] scan_frac_append [OF f en] scan_exp_append [OF e en]
    by (simp add: parse_number_def Let_def)
qed

lemma dec_digits_hd_nonzero: "0 < n \<Longrightarrow> hd (dec_digits n) \<noteq> CHR ''0''"
proof (induction n rule: dec_digits.induct)
  case (1 n)
  show ?case
  proof (cases "n < 10")
    case True
    have "of_char (char_of (48 + n) :: char) = (48 + n :: nat)" using True by simp
    moreover have "of_char CHR ''0'' = (48::nat)" by simp
    ultimately have "char_of (48 + n) \<noteq> CHR ''0''" using "1.prems" by (metis add_cancel_right_right less_not_refl)
    with True show ?thesis by (simp add: dec_digits.simps)
  next
    case False
    then have "0 < n div 10" by simp
    with "1.IH" False have "hd (dec_digits (n div 10)) \<noteq> CHR ''0''" by simp
    with False show ?thesis by (simp add: dec_digits.simps [of n])
  qed
qed

lemma scan_int_dec_digits:
  assumes "sg = [] \<or> sg = ''-''"
  shows "scan_int (sg @ dec_digits n) = Some (sg @ dec_digits n, [])"
proof -
  obtain d ds where dd: "dec_digits n = d # ds" by (cases "dec_digits n") simp_all
  have dig: "is_digit d" "list_all is_digit ds" using dec_digits_is_digit [of n] by (simp_all add: dd)
  then have tw: "takeWhile is_digit ds = ds" "dropWhile is_digit ds = []"
    by (simp_all add: list_all_iff takeWhile_eq_all_conv dropWhile_eq_Nil_conv)
  show ?thesis
  proof (cases "n = 0")
    case True
    then have "dec_digits n = ''0''" by (simp add: eval_simps)
    with assms show ?thesis by (auto simp: scan_int_def)
  next
    case False
    then have "d \<noteq> CHR ''0''" using dec_digits_hd_nonzero [of n] by (simp add: dd)
    with assms dig tw dd show ?thesis by (auto simp: scan_int_def is_digit_def)
  qed
qed

lemma parse_number_str_int: "parse_number (str_int i) = Some (JInt i, [])"
proof -
  have "scan_int (str_int i) = Some (str_int i, [])"
    using scan_int_dec_digits [of "[]"] scan_int_dec_digits [of "''-''"] by (simp add: str_int_def)
  then show ?thesis by (simp add: parse_number_def scan_frac_def scan_exp_def)
qed

lemma scan_int_start:
  "scan_int s = Some (i, t) \<Longrightarrow> \<exists>c r. s = c # r \<and> (is_digit c \<or> (c = CHR ''-'' \<and> r \<noteq> [] \<and> is_digit (hd r)))"
  by (cases s) (auto simp: scan_int_def is_digit_def split: if_splits list.splits)

lemma parse_scalar_number:
  assumes "scan_int s = Some (i, t)"
  shows "parse_scalar s = parse_number s"
proof -
  from scan_int_start [OF assms] obtain c r where s: "s = c # r"
    and c: "is_digit c \<or> (c = CHR ''-'' \<and> r \<noteq> [] \<and> is_digit (hd r))" by blast
  have c1: "c \<notin> set ''ntfNI''" using c by (auto simp: is_digit_def)
  have c2: "c \<noteq> CHR ''-'' \<or> (r \<noteq> [] \<and> hd r \<noteq> CHR ''I'')" using c by (auto simp: is_digit_def)
  show ?thesis unfolding s
  proof (cases r)
    case Nil
    with c1 show "parse_scalar (c # r) = parse_number (c # r)" by (simp add: parse_scalar_def)
  next
    case (Cons d r')
    with c1 c2 show "parse_scalar (c # r) = parse_number (c # r)" by (auto simp: parse_scalar_def)
  qed
qed

subsection \<open>Lists, dicts and all values\<close>

lemma delim_ends_number: "delim r \<Longrightarrow> ends_number r"
  by (cases r) (auto simp: delim_def ends_number_def num_char_def is_ws_def is_digit_def)

lemma json_seps_split:
  assumes "json_seps isep ksep"
  obtains w1 w2 where "isep = CHR '','' # w1" "list_all is_ws w1" "ksep = CHR '':'' # w2" "list_all is_ws w2"
  using assms by (cases isep; cases ksep) (auto simp: json_seps_def)

lemma join_Cons: "join sep (x # ys) = x @ concat (map (\<lambda>y. sep @ y) ys)"
  by (induction ys arbitrary: x) simp_all

lemma dict_set_fresh: "k \<notin> set (map fst acc) \<Longrightarrow> dict_set acc k v = acc @ [(k, v)]"
  by (induction acc) auto

lemma parse_number_start:
  "parse_number s = Some x \<Longrightarrow> \<exists>c r. s = c # r \<and> (is_digit c \<or> c = CHR ''-'')"
  by (auto simp: parse_number_def split: option.splits dest!: scan_int_start)

lemma dumps_with_start:
  "wf_json j \<Longrightarrow> \<exists>c r. dumps_with isep ksep j = c # r \<and> \<not> is_ws c \<and> c \<noteq> CHR '']'' \<and> c \<noteq> CHR ''}''"
proof (cases j)
  case (JInt i)
  then show ?thesis using parse_number_start [OF parse_number_str_int [of i]]
    by (auto simp: is_ws_def is_digit_def)
next
  case (JFloat r)
  assume "wf_json j"
  with JFloat show ?thesis
    by (auto simp: float_text_def is_ws_def is_digit_def dest!: parse_number_start)
qed (auto simp: dumps_str_def is_ws_def)

lemma number_start_char:
  "is_digit c \<or> c = CHR ''-'' \<Longrightarrow>
   \<not> is_ws c \<and> c \<noteq> CHR 0x22 \<and> c \<noteq> CHR ''['' \<and> c \<noteq> CHR ''{'' \<and> c \<noteq> CHR '']'' \<and> c \<noteq> CHR ''}''"
  unfolding is_digit_def is_ws_def by auto

lemma skip_ws_nonws: "\<not> is_ws c \<Longrightarrow> skip_ws (c # s) = c # s"
  by (simp add: skip_ws_def)

lemma parse_value_number:
  assumes pn: "parse_number s = Some (v, [])" and e: "ends_number rest"
  shows "parse_value (Suc n) (s @ rest) = Some (v, rest)"
proof -
  have pn': "parse_number (s @ rest) = Some (v, rest)"
    using parse_number_append [OF pn e] by simp
  obtain c r where cr: "s = c # r" and c: "\<not> is_ws c" "c \<noteq> CHR 0x22" "c \<noteq> CHR ''[''" "c \<noteq> CHR ''{''"
    using parse_number_start [OF pn] number_start_char by blast
  obtain a b where "scan_int (s @ rest) = Some (a, b)"
    using pn' by (auto simp: parse_number_def split: option.splits)
  then have sc: "parse_scalar (s @ rest) = Some (v, rest)"
    using pn' by (simp add: parse_scalar_number)
  have "parse_value (Suc n) (c # r @ rest) = parse_scalar (c # r @ rest)"
    using c by (simp add: skip_ws_nonws)
  with sc cr show ?thesis by simp
qed

lemma reads_back_scalar:
  assumes "wf_json j" and "\<forall>xs. j \<noteq> JList xs" and "\<forall>kvs. j \<noteq> JObj kvs"
  shows "reads_back isep ksep j"
  unfolding reads_back_def
proof (intro allI impI)
  fix n rest assume d: "delim rest"
  then have e: "ends_number rest" by (rule delim_ends_number)
  show "parse_value (Suc n) (dumps_with isep ksep j @ rest) = Some (canon j, rest)"
  proof (cases j)
    case (JInt i)
    with parse_value_number [OF parse_number_str_int e] show ?thesis by simp
  next
    case (JFloat r)
    with assms(1) have "r \<in> {''NaN'', ''Infinity'', ''-Infinity''} \<or> parse_number r = Some (JFloat r, [])"
      by (simp add: float_text_def)
    then show ?thesis
    proof
      assume "parse_number r = Some (JFloat r, [])"
      with parse_value_number [OF this e] JFloat show ?thesis by simp
    qed (auto simp: JFloat skip_ws_def is_ws_def parse_scalar_def)
  qed (use assms in \<open>auto simp: skip_ws_def is_ws_def parse_scalar_def dumps_str_def
        parse_string_dumps_str\<close>)
qed

lemma parse_array_items:
  assumes sep: "json_seps isep ksep" and rb: "\<forall>y\<in>set ys. reads_back isep ksep y"
    and len: "length (concat (map (\<lambda>y. isep @ dumps_with isep ksep y) ys)) < n"
  shows "parse_array n acc (concat (map (\<lambda>y. isep @ dumps_with isep ksep y) ys) @ CHR '']'' # rest)
         = Some (JList (acc @ map canon ys), rest)"
  using rb len
proof (induction ys arbitrary: acc n)
  case Nil
  then obtain m where "n = Suc m" by (cases n) auto
  then show ?case by (simp add: skip_ws_def is_ws_def)
next
  case (Cons y ys)
  obtain w1 w2 where isep: "isep = CHR '','' # w1" and w1: "list_all is_ws w1"
    using sep by (rule json_seps_split)
  let ?R = "concat (map (\<lambda>y. isep @ dumps_with isep ksep y) ys) @ CHR '']'' # rest"
  from Cons.prems(2) obtain m where n: "n = Suc (Suc m)"
    and m: "length (dumps_with isep ksep y) \<le> m"
    and m2: "length (concat (map (\<lambda>y. isep @ dumps_with isep ksep y) ys)) < Suc m"
    by (cases n; cases "n - 1") (auto simp: isep)
  have d: "delim ?R" by (cases ys) (auto simp: delim_def isep)
  have v: "parse_value (Suc m) (w1 @ dumps_with isep ksep y @ ?R) = Some (canon y, ?R)"
    using Cons.prems(1) m d by (simp add: parse_ws_append(1) [OF w1] reads_back_def)
  have "parse_array (Suc m) (acc @ [canon y]) ?R = Some (JList ((acc @ [canon y]) @ map canon ys), rest)"
    by (rule Cons.IH) (use Cons.prems(1) m2 in auto)
  with v show ?case by (simp add: n isep skip_ws_nonws is_ws_def)
qed

lemma parse_members_item:
  assumes sep: "json_seps isep ksep" and rb: "reads_back isep ksep v"
    and len: "length (dumps_with isep ksep v) < m" and d: "delim R"
  shows "parse_members (Suc m) acc (dumps_str k @ ksep @ dumps_with isep ksep v @ R)
         = parse_object m (dict_set acc k (canon v)) R"
proof -
  obtain w1 w2 where ksep: "ksep = CHR '':'' # w2" and w2: "list_all is_ws w2"
    using sep by (rule json_seps_split)
  from len obtain m' where m: "m = Suc m'" and m': "length (dumps_with isep ksep v) \<le> m'"
    by (cases m) auto
  have v: "parse_value m (w2 @ dumps_with isep ksep v @ R) = Some (canon v, R)"
    using rb m' d by (simp add: m parse_ws_append(1) [OF w2] reads_back_def)
  have s: "parse_string (concat (map escape_char k) @ CHR 0x22 # ksep @ dumps_with isep ksep v @ R)
           = Some (k, ksep @ dumps_with isep ksep v @ R)"
    by (rule parse_string_dumps_str)
  show ?thesis
    using v s by (simp add: dumps_str_def ksep skip_ws_nonws is_ws_def)
qed

lemma parse_object_items:
  assumes sep: "json_seps isep ksep" and rb: "\<forall>p\<in>set ps. reads_back isep ksep (snd p)"
    and dist: "distinct (map fst acc @ map fst ps)"
    and len: "length (concat (map (\<lambda>p. isep @ (case p of (k, v) \<Rightarrow>
                 dumps_str k @ ksep @ dumps_with isep ksep v)) ps)) < n"
  shows "parse_object n acc (concat (map (\<lambda>p. isep @ (case p of (k, v) \<Rightarrow>
                 dumps_str k @ ksep @ dumps_with isep ksep v)) ps) @ CHR ''}'' # rest)
         = Some (JObj (acc @ map (\<lambda>(k, v). (k, canon v)) ps), rest)"
  using rb dist len
proof (induction ps arbitrary: acc n)
  case Nil
  then obtain m where "n = Suc m" by (cases n) auto
  then show ?case by (simp add: skip_ws_def is_ws_def)
next
  case (Cons p ps)
  obtain k v where p: "p = (k, v)" by fastforce
  obtain w1 w2 where isep: "isep = CHR '','' # w1" and w1: "list_all is_ws w1"
    and ksep: "ksep = CHR '':'' # w2"
    using sep by (rule json_seps_split)
  let ?item = "\<lambda>p. isep @ (case p of (k, v) \<Rightarrow> dumps_str k @ ksep @ dumps_with isep ksep v)"
  let ?R = "concat (map ?item ps) @ CHR ''}'' # rest"
  from Cons.prems(3) obtain m where n: "n = Suc (Suc m)"
    and m: "length (dumps_with isep ksep v) < m"
    and m2: "length (concat (map ?item ps)) < m"
    by (cases n; cases "n - 1") (auto simp: p isep ksep dumps_str_def)
  have d: "delim ?R" by (cases ps) (auto simp: delim_def isep)
  have k: "k \<notin> set (map fst acc)" using Cons.prems(2) by (simp add: p)
  have mem: "parse_members (Suc m) acc (dumps_str k @ ksep @ dumps_with isep ksep v @ ?R)
             = parse_object m (acc @ [(k, canon v)]) ?R"
    using parse_members_item [OF sep _ m d] Cons.prems(1) dict_set_fresh [OF k] by (simp add: p)
  have "parse_object m (acc @ [(k, canon v)]) ?R =
        Some (JObj ((acc @ [(k, canon v)]) @ map (\<lambda>(k, v). (k, canon v)) ps), rest)"
    by (rule Cons.IH) (use Cons.prems(1,2) m2 in \<open>auto simp: p\<close>)
  moreover have "parse_object n acc (concat (map ?item (p # ps)) @ CHR ''}'' # rest)
      = parse_members (Suc m) acc (dumps_str k @ ksep @ dumps_with isep ksep v @ ?R)"
    by (simp add: n p isep skip_ws_nonws is_ws_def parse_ws_append(3) [OF w1]
        del: parse_members.simps)
  ultimately show ?case using mem by (simp add: p)
qed

lemma reads_back_all:
  assumes sep: "json_seps isep ksep"
  shows "wf_json j \<Longrightarrow> reads_back isep ksep j"
proof (induction j)
  case (JList xs)
  have rb: "\<forall>y\<in>set xs. reads_back isep ksep y" using JList by (simp add: list_all_iff)
  obtain w1 w2 where isep: "isep = CHR '','' # w1" using sep by (rule json_seps_split)
  show ?case unfolding reads_back_def
  proof (intro allI impI)
    fix n rest assume len: "length (dumps_with isep ksep (JList xs)) \<le> n" and d: "delim rest"
    show "parse_value (Suc n) (dumps_with isep ksep (JList xs) @ rest) = Some (canon (JList xs), rest)"
    proof (cases xs)
      case Nil
      then show ?thesis by (simp add: skip_ws_def is_ws_def)
    next
      case (Cons x ys)
      let ?R = "concat (map (\<lambda>y. isep @ dumps_with isep ksep y) ys) @ CHR '']'' # rest"
      have enc: "dumps_with isep ksep (JList xs) @ rest = CHR ''['' # dumps_with isep ksep x @ ?R"
        by (simp add: Cons join_Cons comp_def)
      obtain c r where cr: "dumps_with isep ksep x = c # r" "\<not> is_ws c" "c \<noteq> CHR '']''"
        using dumps_with_start [of x isep ksep] JList.prems by (auto simp: Cons)
      have d': "delim ?R" by (cases ys) (auto simp: delim_def isep)
      have l: "length (dumps_with isep ksep (JList xs)) =
               length (dumps_with isep ksep x) + length (concat (map (\<lambda>y. isep @ dumps_with isep ksep y) ys)) + 2"
        using arg_cong [OF enc, of length] by simp
      from len obtain n' where n: "n = Suc n'" and n': "length (dumps_with isep ksep x) \<le> n'"
        and n2: "length (concat (map (\<lambda>y. isep @ dumps_with isep ksep y) ys)) < n"
        unfolding l by (cases n) simp_all
      have v: "parse_value n (dumps_with isep ksep x @ ?R) = Some (canon x, ?R)"
        using rb n' d' by (simp add: Cons n reads_back_def)
      have a: "parse_array n [canon x] ?R = Some (JList ([canon x] @ map canon ys), rest)"
        by (rule parse_array_items [OF sep]) (use rb n2 in \<open>auto simp: Cons\<close>)
      have "parse_value (Suc n) (CHR ''['' # dumps_with isep ksep x @ ?R)
            = (case parse_value n (dumps_with isep ksep x @ ?R) of
                 None \<Rightarrow> None | Some (v, r') \<Rightarrow> parse_array n [v] r')"
        using cr by (simp add: skip_ws_nonws is_ws_def del: parse_array.simps)
      with v a enc show ?thesis by (simp add: Cons)
    qed
  qed
next
  case (JObj kvs)
  let ?f = "\<lambda>(k, v). (k, canon v)"
  let ?item = "\<lambda>p. isep @ (case p of (k, v) \<Rightarrow> dumps_str k @ ksep @ dumps_with isep ksep v)"
  have rb: "\<forall>p\<in>set kvs. reads_back isep ksep (snd p)"
    using JObj by (fastforce simp: list_all_iff)
  have ms: "mset (map fst (sort_key fst kvs)) = mset (map fst kvs)"
    by (simp only: mset_map mset_sort)
  have dist: "distinct (map fst (sort_key fst kvs))"
    using mset_eq_imp_distinct_iff [OF ms] JObj.prems by simp
  obtain w1 w2 where isep: "isep = CHR '','' # w1" and ksep: "ksep = CHR '':'' # w2"
    using sep by (rule json_seps_split)
  have canon_eq: "canon (JObj kvs) = JObj (map ?f (sort_key fst kvs))"
    by (simp add: canon_map_key)
  show ?case unfolding reads_back_def
  proof (intro allI impI)
    fix n rest assume len: "length (dumps_with isep ksep (JObj kvs)) \<le> n" and d: "delim rest"
    show "parse_value (Suc n) (dumps_with isep ksep (JObj kvs) @ rest) = Some (canon (JObj kvs), rest)"
    proof (cases "sort_key fst kvs")
      case Nil
      then have "kvs = []" by (metis length_0_conv length_sort)
      then show ?thesis by (simp add: skip_ws_def is_ws_def)
    next
      case (Cons p ps)
      obtain k v where p: "p = (k, v)" by fastforce
      let ?R = "concat (map ?item ps) @ CHR ''}'' # rest"
      have enc: "dumps_with isep ksep (JObj kvs) @ rest
                 = CHR ''{'' # dumps_str k @ ksep @ dumps_with isep ksep v @ ?R"
        by (simp add: Cons p join_Cons comp_def case_prod_beta)
      have d': "delim ?R" by (cases ps) (auto simp: delim_def isep)
      have l: "length (dumps_with isep ksep (JObj kvs)) =
               length (dumps_str k) + length ksep + length (dumps_with isep ksep v) +
               length (concat (map ?item ps)) + 2"
        using arg_cong [OF enc, of length] by simp
      have l2: "2 \<le> length (dumps_str k)" "1 \<le> length ksep" by (simp_all add: dumps_str_def ksep)
      from len obtain m where n: "n = Suc m" and m: "length (dumps_with isep ksep v) < m"
        and m2: "length (concat (map ?item ps)) < m"
        using l l2 by (cases n) simp_all
      have sk: "set ((k, v) # ps) = set kvs" using Cons p by (metis set_sort)
      then have "(k, v) \<in> set kvs" "set ps \<subseteq> set kvs" by auto
      then have rbv: "reads_back isep ksep v" and rbps: "\<forall>q\<in>set ps. reads_back isep ksep (snd q)"
        using rb by fastforce+
      have mem: "parse_members n [] (dumps_str k @ ksep @ dumps_with isep ksep v @ ?R)
                 = parse_object m [(k, canon v)] ?R"
        using parse_members_item [OF sep rbv m d'] by (simp add: n)
      have obj: "parse_object m [(k, canon v)] ?R = Some (JObj ([(k, canon v)] @ map ?f ps), rest)"
        by (rule parse_object_items [OF sep]) (use rbps dist m2 Cons p in auto)
      have "parse_value (Suc n) (CHR ''{'' # dumps_str k @ ksep @ dumps_with isep ksep v @ ?R)
            = parse_members n [] (dumps_str k @ ksep @ dumps_with isep ksep v @ ?R)"
        by (simp add: dumps_str_def skip_ws_nonws is_ws_def del: parse_members.simps)
      with mem obj enc canon_eq show ?thesis by (simp add: Cons p)
    qed
  qed
qed (auto intro: reads_back_scalar)

lemma parse_dumps:
  "json_seps isep ksep \<Longrightarrow> wf_json j \<Longrightarrow>
   parse_value (Suc (length (dumps_with isep ksep j))) (dumps_with isep ksep j) = Some (canon j, [])"
  using reads_back_all [of isep ksep j] by (simp add: reads_back_def delim_def)

text \<open>
  Equal texts come from values with equal canonical forms: the encoder, with
  either separator style, forgets nothing but the order of a dict's items.
\<close>

lemma dumps_with_canon_inj:
  assumes "json_seps isep ksep" and "wf_json a" and "wf_json b"
    and "dumps_with isep ksep a = dumps_with isep ksep b"
  shows "canon a = canon b"
  using parse_dumps [OF assms(1,2)] parse_dumps [OF assms(1,3)] assms(4) by simp

section \<open>The round trip\<close>

text \<open>
  \<^verbatim>\<open>json.loads\<close> reads back what \<^verbatim>\<open>json.dumps(j, sort_keys=True)\<close>
  prints, with the default separators (the text \<^verbatim>\<open>Blockchain.hash\<close> digests)
  and with the compact ones \<^verbatim>\<open>jsonify\<close> sends: for every value Python can
  produce, decoding gives the value back with every dict's items sorted by key.
\<close>

theorem loads_dumps_with:
  assumes "json_seps isep ksep" and "wf_json j"
  shows "loads (dumps_with isep ksep j) = Some (canon j)"
  using parse_dumps [OF assms] by (simp add: loads_def skip_ws_def)

theorem loads_dumps_with_witness:
  "json_seps '', '' '': '' \<and>
   wf_json (JObj [(''b'', JInt 1), (''a'', JList [JStr ''x'', JFloat ''2.5'', JNull])]) \<and>
   loads (dumps_with '', '' '': '' (JObj [(''b'', JInt 1), (''a'', JList [JStr ''x'', JFloat ''2.5'', JNull])]))
     = Some (canon (JObj [(''b'', JInt 1), (''a'', JList [JStr ''x'', JFloat ''2.5'', JNull])]))"
proof -
  have s: "json_seps '', '' '': ''" by (simp add: json_seps_def is_ws_def)
  have w: "wf_json (JObj [(''b'', JInt 1), (''a'', JList [JStr ''x'', JFloat ''2.5'', JNull])])"
    by (simp add: eval_simps)
  show ?thesis using loads_dumps_with [OF s w] s w by blast
qed

end
