(* ===== verification/Block.thy ===== *)
theory Block
  imports Json
begin

text \<open>
  The ledger's data and the Hasher. A transaction and a block are the dicts
  that \<^verbatim>\<open>Blockchain.new_transaction\<close> and \<^verbatim>\<open>Blockchain.new_block\<close> build
  (\<^verbatim>\<open>src/blockchain.py\<close>, lines 91--97 and 115--119); here they are records
  with the dicts' fields, and \<open>block_to_json\<close> rebuilds the dict in the
  source's insertion order. \<^verbatim>\<open>Blockchain.hash\<close> (lines 124--131) digests the
  sorted-key JSON text of a dict. The lemmas show that a block is always
  encoded as well-formed ASCII JSON and that its hash does not depend on the
  order in which the dict's keys were inserted.
\<close>

section \<open>Transactions and blocks\<close>

text \<open>
  The transaction's fields are whatever the request supplied (any JSON value);
  the miner's reward is \<^verbatim>\<open>{'sender': '0', 'recipient': node_identifier,
  'amount': 1}\<close>.
\<close>

record transaction =
  sender :: json
  recipient :: json
  amount :: json

record block =
  index :: int
  timestamp :: pyfloat
  transactions :: "transaction list"
  proof_val :: int
  previous_hash :: string

definition tx_to_json :: "transaction \<Rightarrow> json" where
  "tx_to_json t =
     JObj [(''sender'', sender t), (''recipient'', recipient t), (''amount'', amount t)]"

definition block_fields :: "block \<Rightarrow> (string \<times> json) list" where
  "block_fields b =
     [(''index'', JInt (index b)),
      (''timestamp'', JFloat (timestamp b)),
      (''transactions'', JList (map tx_to_json (transactions b))),
      (''proof'', JInt (proof_val b)),
      (''previous_hash'', JStr (previous_hash b))]"

definition block_to_json :: "block \<Rightarrow> json" where
  "block_to_json b = JObj (block_fields b)"

section \<open>The Hasher\<close>

text \<open>\<^verbatim>\<open>hashlib.sha256(json.dumps(block, sort_keys=True).encode()).hexdigest()\<close>\<close>

definition hash :: "hasher \<Rightarrow> json \<Rightarrow> string" where
  "hash H blk = H (dumps blk)"

abbreviation block_hash :: "hasher \<Rightarrow> block \<Rightarrow> string" where
  "block_hash H b \<equiv> hash H (block_to_json b)"

text \<open>A block whose values Python can produce: a timestamp printed as a float, well-formed transaction values.\<close>

definition wf_tx :: "transaction \<Rightarrow> bool" where
  "wf_tx t \<longleftrightarrow> wf_json (sender t) \<and> wf_json (recipient t) \<and> wf_json (amount t)"

definition wf_block :: "block \<Rightarrow> bool" where
  "wf_block b \<longleftrightarrow> float_text (timestamp b) \<and> list_all wf_tx (transactions b)"

section \<open>Example blocks\<close>

text \<open>
  Concrete blocks for the examples: a genesis block as \<^verbatim>\<open>__init__\<close> makes
  it, and successors that carry the stand-in digest of their predecessor and
  the proof 7, which solves the stand-in puzzle after any proof.
\<close>

definition ex_genesis :: block where
  "ex_genesis = \<lparr>index = 1, timestamp = ''1700000000.0'', transactions = [],
                  proof_val = 100, previous_hash = ''1''\<rparr>"

definition ex_next :: "block \<Rightarrow> block" where
  "ex_next prev = \<lparr>index = index prev + 1, timestamp = ''1700000001.5'', transactions = [],
                    proof_val = 7, previous_hash = hash toy_sha (block_to_json prev)\<rparr>"

fun ex_chain :: "nat \<Rightarrow> block list" where
  "ex_chain 0 = [ex_genesis]"
| "ex_chain (Suc n) = ex_chain n @ [ex_next (last (ex_chain n))]"

section \<open>Lemmas\<close>

lemma distinct_block_keys [simp]: "distinct (map fst (block_fields b))"
  by (simp add: block_fields_def)

lemma wf_json_tx_to_json [simp]: "wf_json (tx_to_json t) = wf_tx t"
  by (simp add: tx_to_json_def wf_tx_def)

lemma wf_json_block_to_json [simp]: "wf_json (block_to_json b) = wf_block b"
  by (simp add: block_to_json_def block_fields_def wf_block_def list_all_iff)

lemma hash_canon: "canon j = canon j' \<Longrightarrow> hash H j = hash H j'"
  by (metis dumps_canon hash_def)

text \<open>
  C9: a dict with the same items as a block, inserted in any order (as a
  peer's JSON decoder may produce them), hashes as the block does:
  \<^verbatim>\<open>sort_keys=True\<close> makes the digest independent of insertion order.
\<close>

lemma hash_block_items_perm:
  assumes "mset kvs = mset (block_fields b)"
  shows "hash H (JObj kvs) = block_hash H b"
proof (rule hash_canon)
  have perm: "mset (map (\<lambda>(k, v). (k, canon v)) kvs)
        = mset (map (\<lambda>(k, v). (k, canon v)) (block_fields b))"
    using assms by simp
  have "distinct (map fst kvs)"
  proof -
    have "mset (map fst kvs) = mset (map fst (block_fields b))"
      using assms by (metis mset_map)
    then show ?thesis
      using distinct_block_keys [of b] mset_eq_imp_distinct_iff by blast
  qed
  then show "canon (JObj kvs) = canon (block_to_json b)"
    unfolding block_to_json_def using perm by (rule canon_JObj_perm)
qed

theorem hash_block_items_perm_witness:
  "mset (rev (block_fields ex_genesis)) = mset (block_fields ex_genesis) \<and>
   hash toy_sha (JObj (rev (block_fields ex_genesis))) = block_hash toy_sha ex_genesis"
proof -
  have h: "mset (rev (block_fields ex_genesis)) = mset (block_fields ex_genesis)" by simp
  show ?thesis by (rule conjI [OF h hash_block_items_perm [OF h]])
qed

end
