(* ===== verification/ProofOfWork.thy ===== *)
theory ProofOfWork
  imports Prelude
begin

text \<open>
  The proof-of-work engine, \<^verbatim>\<open>Blockchain.valid_proof\<close> and
  \<^verbatim>\<open>Blockchain.proof_of_work\<close> (\<^verbatim>\<open>src/blockchain.py\<close>, lines 139--162). The
  puzzle input is the f-string \<^verbatim>\<open>f'{last_proof}{proof}'\<close>, the decimal texts of
  the two integers side by side; the search counts up from 0 with no bound,
  so it is a \<^theory_text>\<open>partial_function\<close> in the option monad: \<open>None\<close> is a
  search that never returns. The lemmas characterise the search exactly: it
  returns the least non-negative valid proof when there is one, and runs for
  ever when there is none.
\<close>

section \<open>The puzzle\<close>

definition valid_proof :: "hasher \<Rightarrow> int \<Rightarrow> int \<Rightarrow> bool" where
  "valid_proof H last_proof prf =
     (take 4 (H (str_int last_proof @ str_int prf)) = ''0000'')"

section \<open>The search\<close>

text \<open>\<^verbatim>\<open>while self.valid_proof(last_proof, proof) is False: proof += 1\<close>\<close>

partial_function (option) pow_loop :: "hasher \<Rightarrow> int \<Rightarrow> int \<Rightarrow> int option" where
  "pow_loop H last_proof prf =
     (if valid_proof H last_proof prf then Some prf else pow_loop H last_proof (prf + 1))"

definition proof_of_work :: "hasher \<Rightarrow> int \<Rightarrow> int option" where
  "proof_of_work H last_proof = pow_loop H last_proof 0"

declare valid_proof_def [eval_simps] proof_of_work_def [eval_simps] pow_loop.simps [eval_simps]

section \<open>Lemmas on the search\<close>

text \<open>
  Partial correctness, by fixpoint induction: a value the loop returns is
  valid, not below the start, and no value between the start and it is valid.
\<close>

lemma pow_loop_sound:
  assumes ret: "pow_loop H lp p = Some r"
  shows "valid_proof H lp r \<and> p \<le> r \<and> (\<forall>q. p \<le> q \<and> q < r \<longrightarrow> \<not> valid_proof H lp q)"
proof (rule pow_loop.raw_induct
    [where P = "\<lambda>H lp p r. valid_proof H lp r \<and> p \<le> r \<and>
                 (\<forall>q. p \<le> q \<and> q < r \<longrightarrow> \<not> valid_proof H lp q)", OF _ ret])
  fix f H lp p r
  assume IH: "\<And>H lp p r. f H lp p = Some r \<Longrightarrow> valid_proof H lp r \<and> p \<le> r \<and>
                 (\<forall>q. p \<le> q \<and> q < r \<longrightarrow> \<not> valid_proof H lp q)"
    and eq: "(if valid_proof H lp p then Some p else f H lp (p + 1)) = Some r"
  show "valid_proof H lp r \<and> p \<le> r \<and> (\<forall>q. p \<le> q \<and> q < r \<longrightarrow> \<not> valid_proof H lp q)"
  proof (cases "valid_proof H lp p")
    case True
    with eq show ?thesis by auto
  next
    case False
    with eq have "f H lp (p + 1) = Some r" by simp
    from IH [OF this] have "valid_proof H lp r" and "p + 1 \<le> r"
      and below: "\<forall>q. p + 1 \<le> q \<and> q < r \<longrightarrow> \<not> valid_proof H lp q" by auto
    moreover have "\<not> valid_proof H lp q" if "p \<le> q" and "q < r" for q
      using below False that by (cases "q = p") auto
    ultimately show ?thesis by auto
  qed
qed

text \<open>Termination: from any start, a valid proof \<open>k\<close> steps ahead is reached.\<close>

lemma pow_loop_reaches:
  "valid_proof H lp (p + int k) \<Longrightarrow> \<exists>r. pow_loop H lp p = Some r"
proof (induction k arbitrary: p)
  case 0
  then show ?case by (simp add: pow_loop.simps [of H lp p])
next
  case (Suc k)
  then have "valid_proof H lp ((p + 1) + int k)" by (simp add: algebra_simps)
  from Suc.IH [OF this] show ?case
    by (auto simp: pow_loop.simps [of H lp p])
qed

lemma pow_loop_None:
  "\<forall>n::nat. \<not> valid_proof H lp (p + int n) \<Longrightarrow> pow_loop H lp p = None"
proof (rule ccontr)
  assume none: "\<forall>n::nat. \<not> valid_proof H lp (p + int n)" and "pow_loop H lp p \<noteq> None"
  then obtain r where "pow_loop H lp p = Some r" by auto
  from pow_loop_sound [OF this] have "valid_proof H lp r" and "p \<le> r" by auto
  then have "valid_proof H lp (p + int (nat (r - p)))" by simp
  with none show False by blast
qed

text \<open>What the node relies on: a returned proof solves the puzzle; the search returns when one exists.\<close>

lemma proof_of_work_valid: "proof_of_work H lp = Some p \<Longrightarrow> valid_proof H lp p"
  using pow_loop_sound by (simp add: proof_of_work_def)

lemma proof_of_work_None_iff:
  "proof_of_work H lp = None \<longleftrightarrow> (\<forall>n::nat. \<not> valid_proof H lp (int n))"
proof
  assume none: "proof_of_work H lp = None"
  show "\<forall>n::nat. \<not> valid_proof H lp (int n)"
  proof (intro allI notI)
    fix n :: nat assume "valid_proof H lp (int n)"
    then obtain r where "pow_loop H lp 0 = Some r" using pow_loop_reaches [of H lp 0 n] by auto
    with none show False by (simp add: proof_of_work_def)
  qed
next
  assume "\<forall>n::nat. \<not> valid_proof H lp (int n)"
  then show "proof_of_work H lp = None" by (simp add: proof_of_work_def pow_loop_None)
qed

text \<open>Under the stand-in digest, 7 solves the puzzle after any proof.\<close>

lemma valid_proof_toy_7: "valid_proof toy_sha p 7"
  by (simp add: valid_proof_def toy_sha_def str_int_def dec_digits.simps char_of_eq_iff)

section \<open>Properties of the engine\<close>

text \<open>
  C2: \<^verbatim>\<open>proof_of_work(last_proof)\<close> returns the least non-negative integer
  that solves the puzzle for \<^verbatim>\<open>last_proof\<close>, and never returns when no
  non-negative integer solves it.
\<close>

theorem proof_of_work_least:
  "proof_of_work H lp =
     (if \<exists>n::nat. valid_proof H lp (int n)
      then Some (int (LEAST n::nat. valid_proof H lp (int n))) else None)"
proof (cases "\<exists>n::nat. valid_proof H lp (int n)")
  case True
  then obtain n :: nat where n: "valid_proof H lp (int n)" by blast
  then obtain r where r: "pow_loop H lp 0 = Some r"
    using pow_loop_reaches [of H lp 0 n] by auto
  from pow_loop_sound [OF r] have valid: "valid_proof H lp r" and "0 \<le> r"
    and below: "\<forall>q. 0 \<le> q \<and> q < r \<longrightarrow> \<not> valid_proof H lp q" by auto
  have "(LEAST n::nat. valid_proof H lp (int n)) = nat r"
  proof (rule Least_equality)
    show "valid_proof H lp (int (nat r))" using valid \<open>0 \<le> r\<close> by simp
    show "nat r \<le> m" if m: "valid_proof H lp (int m)" for m
    proof (rule ccontr)
      assume "\<not> nat r \<le> m"
      then have "int m < r" by (simp add: zless_nat_eq_int_zless)
      with below m show False by simp
    qed
  qed
  with r \<open>0 \<le> r\<close> True show ?thesis by (simp add: proof_of_work_def)
next
  case False
  then have "pow_loop H lp 0 = None" by (intro pow_loop_None) simp
  with False show ?thesis by (simp add: proof_of_work_def)
qed

text \<open>
  The puzzle input is the two decimal texts side by side, so it does not
  separate the previous proof from the new one: the pairs (1, 23) and (12, 3)
  give the same text, and one is a solution exactly when the other is.
\<close>

theorem valid_proof_concat_ambiguous:
  "valid_proof H 1 23 = valid_proof H 12 3"
  by (simp add: valid_proof_def eval_simps)

end
