(* ===== verification/Validator.thy ===== *)
theory Validator
  imports Block ProofOfWork
begin

text \<open>
  The Validator, \<^verbatim>\<open>Blockchain.valid_chain\<close> (\<^verbatim>\<open>src/blockchain.py\<close>, lines
  27--51): a \<^verbatim>\<open>while\<close> loop over the candidate chain by index, keeping the
  previous block, that fails at the first broken hash link or puzzle. It reads
  \<^verbatim>\<open>chain[0]\<close> first, which raises \<^verbatim>\<open>IndexError\<close> on an empty chain. The
  abstract specification \<open>chain_links\<close> says that every pair of neighbours is
  linked; the loop is proved equal to it, and its termination follows from the
  measure \<open>length chain - current_index\<close>.
\<close>

section \<open>The loop and the operation\<close>

function valid_chain_loop :: "hasher \<Rightarrow> block list \<Rightarrow> block \<Rightarrow> nat \<Rightarrow> bool" where
  "valid_chain_loop H blocks last_block current_index =
     (if current_index < length blocks then
        (let block = blocks ! current_index in
         if previous_hash block \<noteq> hash H (block_to_json last_block) then False
         else if \<not> valid_proof H (proof_val last_block) (proof_val block) then False
         else valid_chain_loop H blocks block (current_index + 1))
      else True)"
  by pat_completeness auto
termination
  by (relation "measure (\<lambda>(H, blocks, last_block, current_index). length blocks - current_index)")
     auto

declare valid_chain_loop.simps [simp del]

definition valid_chain :: "hasher \<Rightarrow> block list \<Rightarrow> py_error + bool" where
  "valid_chain H blocks =
     (case blocks of [] \<Rightarrow> Inl IndexError | b0 # _ \<Rightarrow> Inr (valid_chain_loop H blocks b0 1))"

section \<open>The specification\<close>

text \<open>Block \<open>b\<close> may follow block \<open>prev\<close>: checks (a) and (b) of the loop.\<close>

definition linked :: "hasher \<Rightarrow> block \<Rightarrow> block \<Rightarrow> bool" where
  "linked H prev b \<longleftrightarrow>
     previous_hash b = hash H (block_to_json prev) \<and> valid_proof H (proof_val prev) (proof_val b)"

fun chain_links :: "hasher \<Rightarrow> block list \<Rightarrow> bool" where
  "chain_links H (a # b # rest) = (linked H a b \<and> chain_links H (b # rest))"
| "chain_links H _ = True"

declare valid_chain_def [eval_simps] valid_chain_loop.simps [eval_simps] linked_def [eval_simps]

section \<open>Lemmas\<close>

lemma valid_chain_loop_unfold:
  "i < length c \<Longrightarrow>
   valid_chain_loop H c last_block i \<longleftrightarrow>
   linked H last_block (c ! i) \<and> valid_chain_loop H c (c ! i) (i + 1)"
  by (subst valid_chain_loop.simps) (simp add: Let_def linked_def)

text \<open>The loop from position \<open>i\<close> checks exactly the links of the chain from \<open>i - 1\<close> on.\<close>

lemma valid_chain_loop_drop:
  "0 < i \<Longrightarrow> i \<le> length c \<Longrightarrow> last_block = c ! (i - 1) \<Longrightarrow>
   valid_chain_loop H c last_block i \<longleftrightarrow> chain_links H (drop (i - 1) c)"
proof (induction H c last_block i rule: valid_chain_loop.induct)
  case (1 H c last_block i)
  show ?case
  proof (cases "i < length c")
    case True
    have d: "drop (i - 1) c = c ! (i - 1) # c ! i # drop (i + 1) c"
      using True "1.prems"(1) Cons_nth_drop_Suc [of "i - 1" c] Cons_nth_drop_Suc [of i c]
      by simp
    have "valid_chain_loop H c (c ! i) (i + 1) \<longleftrightarrow> chain_links H (drop i c)"
      if l: "linked H last_block (c ! i)"
    proof -
      have "valid_chain_loop H c (c ! i) (i + 1) \<longleftrightarrow> chain_links H (drop (i + 1 - 1) c)"
        using l True by (intro "1.IH" [OF True refl]) (simp_all add: linked_def)
      then show ?thesis by simp
    qed
    moreover have "drop i c = c ! i # drop (i + 1) c"
      using True Cons_nth_drop_Suc [of i c] by simp
    ultimately show ?thesis
      using "1.prems"(3) valid_chain_loop_unfold [OF True, of H last_block] d
      by auto
  next
    case False
    with "1.prems" have i: "i = length c" by simp
    with "1.prems" have "i - 1 < length c" by simp
    from Cons_nth_drop_Suc [OF this] i "1.prems"(1)
    have "drop (i - 1) c = [c ! (i - 1)]" by simp
    with False show ?thesis by (subst valid_chain_loop.simps) simp
  qed
qed

lemma chain_links_append:
  "chain_links H (c @ [b]) \<longleftrightarrow> chain_links H c \<and> (c \<noteq> [] \<longrightarrow> linked H (last c) b)"
  by (induction H c rule: chain_links.induct) auto

lemma ex_chain_not_Nil [simp]: "ex_chain n \<noteq> []"
  by (induction n) simp_all

lemma length_ex_chain [simp]: "length (ex_chain n) = Suc n"
  by (induction n) simp_all

text \<open>The example chains are linked under the stand-in digest.\<close>

lemma ex_chain_links: "chain_links toy_sha (ex_chain n)"
proof (induction n)
  case 0
  then show ?case by (simp add: ex_genesis_def)
next
  case (Suc n)
  have "linked toy_sha (last (ex_chain n)) (ex_next (last (ex_chain n)))"
    by (simp add: linked_def ex_next_def valid_proof_toy_7)
  with Suc show ?case by (simp add: chain_links_append)
qed

lemma valid_chain_nonempty:
  "c \<noteq> [] \<Longrightarrow> valid_chain H c = Inr (chain_links H c)"
proof (cases c)
  case (Cons b0 rest)
  then have "valid_chain_loop H c b0 1 \<longleftrightarrow> chain_links H (drop (1 - 1) c)"
    by (intro valid_chain_loop_drop) simp_all
  with Cons show ?thesis by (simp add: valid_chain_def)
qed simp

lemma valid_chain_Nil: "valid_chain H [] = Inl IndexError"
  by (simp add: valid_chain_def)

lemma valid_chain_True: "valid_chain H c = Inr True \<longleftrightarrow> c \<noteq> [] \<and> chain_links H c"
  by (cases "c = []") (simp_all add: valid_chain_nonempty valid_chain_Nil)

section \<open>The Validator meets its specification\<close>

text \<open>
  C3: \<^verbatim>\<open>valid_chain(chain)\<close> raises \<^verbatim>\<open>IndexError\<close> on an empty chain, and on
  any other chain returns True exactly when every block after the first
  carries the hash of its predecessor and solves the puzzle for its
  predecessor's proof.
\<close>

theorem valid_chain_spec:
  "valid_chain H c = (if c = [] then Inl IndexError else Inr (chain_links H c))"
  by (simp add: valid_chain_nonempty valid_chain_Nil)

end
