(* ===== verification/Consensus.thy ===== *)
theory Consensus
  imports Chain Validator
begin

text \<open>
  The Consensus Resolver, \<^verbatim>\<open>Blockchain.resolve_conflicts\<close>
  (\<^verbatim>\<open>src/blockchain.py\<close>, lines 54--81). The node asks every registered peer
  for its chain (\<^verbatim>\<open>requests.get(f'http://{node}/chain')\<close>) and keeps the
  first chain whose reported length beats the best length so far and that
  \<^verbatim>\<open>valid_chain\<close> accepts. The network is a function from a peer to its
  response or to the exception \<^verbatim>\<open>requests.get\<close> raises; the order in which the
  loop visits the set \<^verbatim>\<open>self.nodes\<close> is an argument, since Python does not fix
  it. The abstract specification \<open>best_chain\<close> picks, among the valid
  responses, the first of greatest reported length above the local length;
  the loop is proved to refine it whenever no exception is raised.
\<close>

section \<open>Peer responses\<close>

text \<open>
  A response of \<^verbatim>\<open>GET /chain\<close>: its status code and, for status 200, the JSON
  body's \<^verbatim>\<open>length\<close> and \<^verbatim>\<open>chain\<close> (the peer's own \<^verbatim>\<open>full_chain\<close>, lines
  213--219, sends \<^verbatim>\<open>len(blockchain.chain)\<close>; another peer may send any number).
\<close>

record chain_response =
  status_code :: int
  reported_length :: int
  reported_chain :: "block list"

type_synonym network = "string \<Rightarrow> py_error + chain_response"

section \<open>The resolver\<close>

text \<open>The \<^verbatim>\<open>for node in neighbours\<close> loop, with \<^verbatim>\<open>max_length\<close> and \<^verbatim>\<open>new_chain\<close> as its state.\<close>

fun resolve_loop ::
  "hasher \<Rightarrow> network \<Rightarrow> string list \<Rightarrow> int \<Rightarrow> block list option
   \<Rightarrow> py_error + (int \<times> block list option)"
where
  "resolve_loop H net [] max_length new_chain = Inr (max_length, new_chain)"
| "resolve_loop H net (node # rest) max_length new_chain =
     (case net node of
        Inl e \<Rightarrow> Inl e
      | Inr response \<Rightarrow>
          (if status_code response = 200 then
             (let len = reported_length response; c = reported_chain response in
              if len > max_length then
                (case valid_chain H c of
                   Inl e \<Rightarrow> Inl e
                 | Inr ok \<Rightarrow>
                     if ok then resolve_loop H net rest len (Some c)
                     else resolve_loop H net rest max_length new_chain)
              else resolve_loop H net rest max_length new_chain)
           else resolve_loop H net rest max_length new_chain))"

text \<open>\<^verbatim>\<open>if new_chain:\<close> is false for \<^verbatim>\<open>None\<close> and for an empty list.\<close>

definition resolve_conflicts ::
  "hasher \<Rightarrow> network \<Rightarrow> string list \<Rightarrow> blockchain \<Rightarrow> (py_error + bool) \<times> blockchain"
where
  "resolve_conflicts H net order st =
     (case resolve_loop H net order (int (length (chain st))) None of
        Inl e \<Rightarrow> (Inl e, st)
      | Inr (_, new_chain) \<Rightarrow>
          (case new_chain of
             Some c \<Rightarrow> if c \<noteq> [] then (Inr True, st\<lparr>chain := c\<rparr>) else (Inr False, st)
           | None \<Rightarrow> (Inr False, st)))"

declare resolve_conflicts_def [eval_simps]

section \<open>The specification\<close>

text \<open>The responses with status 200 whose chain is valid, as (reported length, chain), in visiting order.\<close>

definition candidates :: "hasher \<Rightarrow> network \<Rightarrow> string list \<Rightarrow> (int \<times> block list) list" where
  "candidates H net order =
     concat (map (\<lambda>n. case net n of
                        Inl _ \<Rightarrow> []
                      | Inr r \<Rightarrow>
                          if status_code r = 200 \<and> valid_chain H (reported_chain r) = Inr True
                          then [(reported_length r, reported_chain r)] else []) order)"

text \<open>The first candidate of greatest length, if that length beats the local one.\<close>

definition best_chain :: "int \<Rightarrow> (int \<times> block list) list \<Rightarrow> block list option" where
  "best_chain local cands =
     (if list_all (\<lambda>x. fst x \<le> local) cands then None
      else map_option snd (find (\<lambda>x. fst x = Max (fst ` set cands)) cands))"

text \<open>The peers answer, and a peer's chain is never empty (so \<^verbatim>\<open>valid_chain\<close> cannot raise).\<close>

definition peers_ok :: "network \<Rightarrow> string list \<Rightarrow> bool" where
  "peers_ok net order =
     list_all (\<lambda>n. case net n of Inl _ \<Rightarrow> False | Inr r \<Rightarrow> reported_chain r \<noteq> []) order"

text \<open>The running maximum the loop keeps, on the candidates alone.\<close>

fun pick :: "int \<Rightarrow> 'c option \<Rightarrow> (int \<times> 'c) list \<Rightarrow> int \<times> 'c option" where
  "pick m nc [] = (m, nc)"
| "pick m nc (x # xs) = (if fst x > m then pick (fst x) (Some (snd x)) xs else pick m nc xs)"

declare candidates_def [eval_simps] best_chain_def [eval_simps] peers_ok_def [eval_simps]

section \<open>Example peers\<close>

text \<open>A network where every peer answers 200 with the given length and chain, and a node with one peer.\<close>

definition ex_peer :: "int \<Rightarrow> block list \<Rightarrow> network" where
  "ex_peer len c = (\<lambda>n. Inr \<lparr>status_code = 200, reported_length = len, reported_chain = c\<rparr>)"

definition ex_node :: "block list \<Rightarrow> blockchain" where
  "ex_node c = \<lparr>chain = c, current_transactions = [], nodes = {''node2:5000''}\<rparr>"

text \<open>A network in which the first peer is down and the second sends a longer valid chain.\<close>

definition ex_down_net :: network where
  "ex_down_net m = (if m = ''down:5000'' then Inl ConnectionError else ex_peer 5 (ex_chain 4) m)"

declare ex_peer_def [eval_simps] ex_node_def [eval_simps] ex_down_net_def [eval_simps]

section \<open>Lemmas\<close>

lemma Max_insert_list:
  "Max (insert a (fst ` set xs)) = (if xs = [] then a else max a (Max (fst ` set xs)))"
  by (simp add: Max_insert)

lemma pick_spec:
  "pick m nc xs =
     (if list_all (\<lambda>x. fst x \<le> m) xs then (m, nc)
      else (Max (fst ` set xs), map_option snd (find (\<lambda>x. fst x = Max (fst ` set xs)) xs)))"
proof (induction xs arbitrary: m nc)
  case Nil
  then show ?case by simp
next
  case (Cons x xs)
  show ?case
  proof (cases "fst x > m")
    case True
    show ?thesis
    proof (cases "list_all (\<lambda>y. fst y \<le> fst x) xs")
      case all: True
      then have "Max (fst ` set (x # xs)) = fst x"
        by (auto simp: Max_insert_list list_all_iff intro!: Max.boundedI max_absorb1)
      with True all Cons.IH [of "fst x" "Some (snd x)"] show ?thesis by simp
    next
      case some: False
      then obtain y where y: "y \<in> set xs" "fst y > fst x" by (auto simp: list_all_iff not_le)
      have ge: "Max (fst ` set xs) \<ge> fst y" using y by (intro Max_ge) auto
      have "xs \<noteq> []" using y by auto
      moreover have lt: "fst x < Max (fst ` set xs)" using y(2) ge by (rule less_le_trans)
      ultimately have M: "Max (fst ` set (x # xs)) = Max (fst ` set xs)"
        by (simp add: Max_insert_list max_def)
      have "fst x \<noteq> Max (fst ` set xs)" using lt by simp
      with True some M Cons.IH [of "fst x" "Some (snd x)"] show ?thesis by simp
    qed
  next
    case False
    show ?thesis
    proof (cases "list_all (\<lambda>y. fst y \<le> m) xs")
      case all: True
      with False Cons.IH [of m nc] show ?thesis by simp
    next
      case some: False
      then obtain y where y: "y \<in> set xs" "fst y > m" by (auto simp: list_all_iff not_le)
      have "Max (fst ` set xs) \<ge> fst y" using y by (intro Max_ge) auto
      with y(2) have ge: "Max (fst ` set xs) > m" by (rule less_le_trans)
      have "xs \<noteq> []" using y by auto
      with ge False have M: "Max (fst ` set (x # xs)) = Max (fst ` set xs)"
        by (simp add: Max_insert_list max_def)
      have "fst x \<noteq> Max (fst ` set xs)" using ge False by simp
      with False some M Cons.IH [of m nc] show ?thesis by simp
    qed
  qed
qed


lemma candidates_Cons:
  "candidates H net (n # rest) =
     (case net n of
        Inl _ \<Rightarrow> []
      | Inr r \<Rightarrow> if status_code r = 200 \<and> valid_chain H (reported_chain r) = Inr True
                 then [(reported_length r, reported_chain r)] else [])
     @ candidates H net rest"
  by (simp add: candidates_def)

lemma resolve_loop_pick:
  "peers_ok net order \<Longrightarrow>
   resolve_loop H net order m nc = Inr (pick m nc (candidates H net order))"
proof (induction order arbitrary: m nc)
  case Nil
  then show ?case by (simp add: candidates_def)
next
  case (Cons n rest)
  then obtain r where r: "net n = Inr r" and ne: "reported_chain r \<noteq> []"
    and ok: "peers_ok net rest"
    by (auto simp: peers_ok_def split: sum.splits)
  from ne have v: "valid_chain H (reported_chain r) = Inr (chain_links H (reported_chain r))"
    by (rule valid_chain_nonempty)
  show ?case
    using Cons.IH [OF ok] r v by (auto simp: candidates_Cons Let_def)
qed

lemma candidates_chain:
  "x \<in> set (candidates H net order) \<Longrightarrow>
   \<exists>n\<in>set order. \<exists>r. net n = Inr r \<and> status_code r = 200 \<and>
     valid_chain H (reported_chain r) = Inr True \<and> x = (reported_length r, reported_chain r)"
  unfolding candidates_def by (force split: sum.splits if_splits)

text \<open>
  C4: when every peer answers with a non-empty chain, \<^verbatim>\<open>resolve_conflicts\<close>
  replaces the local chain by the first valid peer chain of greatest reported
  length, if that length exceeds the local chain's length, and otherwise
  leaves the node unchanged and reports False.
\<close>

theorem resolve_conflicts_refines:
  assumes "peers_ok net order"
  shows "resolve_conflicts H net order st =
    (case best_chain (int (length (chain st))) (candidates H net order) of
       None \<Rightarrow> (Inr False, st)
     | Some c \<Rightarrow> (Inr True, st\<lparr>chain := c\<rparr>))"
proof -
  let ?L = "int (length (chain st))" and ?cs = "candidates H net order"
  have loop: "resolve_loop H net order ?L None = Inr (pick ?L None ?cs)"
    using assms by (rule resolve_loop_pick)
  have ne: "c \<noteq> []" if "find (\<lambda>x. fst x = Max (fst ` set ?cs)) ?cs = Some x" "c = snd x" for x c
  proof -
    from that have "x \<in> set ?cs" by (auto simp: find_Some_iff)
    from candidates_chain [OF this] that show ?thesis by (auto simp: valid_chain_True)
  qed
  show ?thesis
    using ne by (auto simp: resolve_conflicts_def loop pick_spec best_chain_def
        split: option.split)
qed

lemma resolve_loop_result:
  "resolve_loop H net order m nc = Inr (m', nc') \<Longrightarrow>
   nc' = nc \<or>
   (\<exists>n\<in>set order. \<exists>r. net n = Inr r \<and> status_code r = 200 \<and> reported_length r > m \<and>
      valid_chain H (reported_chain r) = Inr True \<and> nc' = Some (reported_chain r))"
proof (induction order arbitrary: m nc)
  case Nil
  then show ?case by simp
next
  case (Cons n rest)
  then obtain r where r: "net n = Inr r" by (auto split: sum.splits)
  show ?case
  proof (cases "status_code r = 200 \<and> reported_length r > m \<and>
                valid_chain H (reported_chain r) = Inr True")
    case True
    with Cons.prems r have "resolve_loop H net rest (reported_length r) (Some (reported_chain r))
        = Inr (m', nc')" by (simp add: Let_def)
    from Cons.IH [OF this] True r show ?thesis by force
  next
    case False
    with Cons.prems r have "resolve_loop H net rest m nc = Inr (m', nc')"
      by (auto simp: Let_def split: if_splits sum.splits)
    from Cons.IH [OF this] show ?thesis by auto
  qed
qed

text \<open>The effect on the node alone: unchanged, or a new non-empty chain with valid links.\<close>

lemma resolve_conflicts_effect:
  "snd (resolve_conflicts H net order st) = st \<or>
   (\<exists>c. snd (resolve_conflicts H net order st) = st\<lparr>chain := c\<rparr> \<and> c \<noteq> [] \<and> chain_links H c)"
proof (cases "resolve_loop H net order (int (length (chain st))) None")
  case (Inl e)
  then show ?thesis by (simp add: resolve_conflicts_def)
next
  case (Inr p)
  obtain m' nc' where p: "p = (m', nc')" by (cases p)
  from resolve_loop_result [OF Inr [unfolded p]] Inr p show ?thesis
    by (auto simp: resolve_conflicts_def valid_chain_True split: option.splits if_splits)
qed

text \<open>
  C5: whatever the peers answer, \<^verbatim>\<open>resolve_conflicts\<close> either leaves the
  node entirely unchanged (and does not report a replacement), or reports True
  and changes only the chain, to a non-empty chain with valid links that some
  registered peer sent with status 200 and a reported length above the local
  length.
\<close>

theorem resolve_conflicts_safe:
  assumes "resolve_conflicts H net order st = (res, st')"
  shows "(st' = st \<and> res \<noteq> Inr True) \<or>
    (res = Inr True \<and>
     (\<exists>n\<in>set order. \<exists>r. net n = Inr r \<and> status_code r = 200 \<and>
        reported_length r > int (length (chain st)) \<and>
        reported_chain r \<noteq> [] \<and> chain_links H (reported_chain r) \<and>
        st' = st\<lparr>chain := reported_chain r\<rparr>))"
proof (cases "resolve_loop H net order (int (length (chain st))) None")
  case (Inl e)
  with assms show ?thesis by (auto simp: resolve_conflicts_def)
next
  case (Inr p)
  obtain m' nc' where p: "p = (m', nc')" by (cases p)
  from resolve_loop_result [OF Inr [unfolded p]] assms Inr p show ?thesis
    by (auto simp: resolve_conflicts_def valid_chain_True split: option.splits if_splits)
qed

theorem resolve_conflicts_refines_witness:
  "peers_ok (ex_peer 5 (ex_chain 4)) [''node2:5000''] \<and>
   resolve_conflicts toy_sha (ex_peer 5 (ex_chain 4)) [''node2:5000''] (ex_node (ex_chain 2)) =
     (case best_chain (int (length (chain (ex_node (ex_chain 2)))))
             (candidates toy_sha (ex_peer 5 (ex_chain 4)) [''node2:5000'']) of
        None \<Rightarrow> (Inr False, ex_node (ex_chain 2))
      | Some c \<Rightarrow> (Inr True, (ex_node (ex_chain 2))\<lparr>chain := c\<rparr>))"
proof -
  have h: "peers_ok (ex_peer 5 (ex_chain 4)) [''node2:5000'']"
    by (simp add: peers_ok_def ex_peer_def)
  show ?thesis by (rule conjI [OF h resolve_conflicts_refines [OF h]])
qed

theorem resolve_conflicts_safe_witness:
  "resolve_conflicts toy_sha (ex_peer 5 (ex_chain 4)) [''node2:5000''] (ex_node (ex_chain 2))
     = (Inr True, ex_node (ex_chain 4)) \<and>
   ((ex_node (ex_chain 4) = ex_node (ex_chain 2) \<and> (Inr True :: py_error + bool) \<noteq> Inr True) \<or>
    ((Inr True :: py_error + bool) = Inr True \<and>
     (\<exists>n\<in>set [''node2:5000'']. \<exists>r. ex_peer 5 (ex_chain 4) n = Inr r \<and> status_code r = 200 \<and>
        reported_length r > int (length (chain (ex_node (ex_chain 2)))) \<and>
        reported_chain r \<noteq> [] \<and> chain_links toy_sha (reported_chain r) \<and>
        ex_node (ex_chain 4) = (ex_node (ex_chain 2))\<lparr>chain := reported_chain r\<rparr>)))"
proof -
  have h: "resolve_conflicts toy_sha (ex_peer 5 (ex_chain 4)) [''node2:5000''] (ex_node (ex_chain 2))
     = (Inr True, ex_node (ex_chain 4))"
    using ex_chain_links [of 4] ex_chain_not_Nil [of 4]
    by (simp add: resolve_conflicts_def ex_peer_def ex_node_def valid_chain_nonempty Let_def)
  show ?thesis by (rule conjI [OF h resolve_conflicts_safe [OF h]])
qed

text \<open>
  The resolver trusts the length a peer reports: a peer that reports a
  length above the local chain's and sends any valid chain, however short,
  has that chain adopted.
\<close>

theorem resolve_adopts_reported_length:
  assumes "net n = Inr \<lparr>status_code = 200, reported_length = len, reported_chain = c\<rparr>"
    and "int (length (chain st)) < len" and "c \<noteq> []" and "chain_links H c"
  shows "resolve_conflicts H net [n] st = (Inr True, st\<lparr>chain := c\<rparr>)"
  using assms by (simp add: resolve_conflicts_def valid_chain_nonempty Let_def)

theorem resolve_adopts_reported_length_witness:
  "ex_peer 5 [ex_genesis] ''node2:5000''
     = Inr \<lparr>status_code = 200, reported_length = 5, reported_chain = [ex_genesis]\<rparr> \<and>
   int (length (chain (ex_node (ex_chain 2)))) < 5 \<and> [ex_genesis] \<noteq> [] \<and>
   chain_links toy_sha [ex_genesis] \<and>
   resolve_conflicts toy_sha (ex_peer 5 [ex_genesis]) [''node2:5000''] (ex_node (ex_chain 2))
     = (Inr True, (ex_node (ex_chain 2))\<lparr>chain := [ex_genesis]\<rparr>) \<and>
   length [ex_genesis] < length (chain (ex_node (ex_chain 2)))"
proof -
  have h1: "ex_peer 5 [ex_genesis] ''node2:5000''
     = Inr \<lparr>status_code = 200, reported_length = 5, reported_chain = [ex_genesis]\<rparr>"
    by (simp add: ex_peer_def)
  have h2: "int (length (chain (ex_node (ex_chain 2)))) < 5" by (simp add: ex_node_def)
  have h3: "chain_links toy_sha [ex_genesis]" by simp
  have "resolve_conflicts toy_sha (ex_peer 5 [ex_genesis]) [''node2:5000''] (ex_node (ex_chain 2))
     = (Inr True, (ex_node (ex_chain 2))\<lparr>chain := [ex_genesis]\<rparr>)"
    by (rule resolve_adopts_reported_length
          [where net = "ex_peer 5 [ex_genesis]" and n = "''node2:5000''", OF h1 h2 _ h3]) simp
  with h1 h2 h3 show ?thesis by (simp add: ex_node_def)
qed

text \<open>
  C8: a peer that cannot be reached aborts the whole resolution with the
  exception \<^verbatim>\<open>requests.get\<close> raised, and the node is left as it was, even
  when a later peer would have supplied a longer valid chain.
\<close>

theorem resolve_unreachable_peer_aborts:
  assumes "net n = Inl e"
  shows "resolve_conflicts H net (n # rest) st = (Inl e, st)"
  using assms by (simp add: resolve_conflicts_def)

theorem resolve_unreachable_peer_aborts_witness:
  "ex_down_net ''down:5000'' = Inl ConnectionError \<and>
   resolve_conflicts toy_sha ex_down_net [''down:5000'', ''node2:5000''] (ex_node (ex_chain 2))
     = (Inl ConnectionError, ex_node (ex_chain 2))"
proof -
  have h: "ex_down_net ''down:5000'' = Inl ConnectionError" by (simp add: ex_down_net_def)
  show ?thesis
    by (rule conjI [OF h resolve_unreachable_peer_aborts
          [where net = ex_down_net and n = "''down:5000''", OF h]])
qed

end
