(* ===== verification/Registry.thy ===== *)
theory Registry
  imports Chain "HOL-Library.Sublist"
begin

text \<open>
  The peer registry: \<^verbatim>\<open>Blockchain.register_node\<close> (\<^verbatim>\<open>src/blockchain.py\<close>,
  lines 18--24) adds \<^verbatim>\<open>urlparse(address).netloc\<close> to the set
  \<^verbatim>\<open>self.nodes\<close>. The network location is computed by the library
  \<^verbatim>\<open>urllib.parse.urlsplit\<close> (Python 3.11 and later), modelled here from its
  source for text input: leading C0 controls and spaces are stripped, tab and
  line breaks removed, a scheme is split off at the first colon when the text
  before it is a letter followed by scheme characters, and the location is
  what follows \<^verbatim>\<open>//\<close> up to the first \<^verbatim>\<open>/\<close>, \<^verbatim>\<open>?\<close> or \<^verbatim>\<open>#\<close>; unbalanced
  square brackets raise \<^verbatim>\<open>ValueError\<close>. The further validation of a bracketed
  IPv6 host and the Unicode normalisation check of a non-ASCII location are
  not modelled. The lemmas show that an address with a scheme registers its
  host and port, and that an address without one registers the empty string.
\<close>

section \<open>The location of a URL\<close>

definition is_ascii_alpha :: "char \<Rightarrow> bool" where
  "is_ascii_alpha c \<longleftrightarrow>
     ((65::nat) \<le> of_char c \<and> of_char c \<le> (90::nat)) \<or> ((97::nat) \<le> of_char c \<and> of_char c \<le> (122::nat))"

text \<open>\<^verbatim>\<open>scheme_chars\<close>: ASCII letters, digits and \<^verbatim>\<open>+-.\<close>\<close>

definition scheme_char :: "char \<Rightarrow> bool" where
  "scheme_char c \<longleftrightarrow> is_ascii_alpha c \<or> is_digit c \<or> c \<in> set ''+-.''"

text \<open>\<^verbatim>\<open>url.lstrip(_WHATWG_C0_CONTROL_OR_SPACE)\<close>, then the tab, CR and LF removed.\<close>

definition url_clean :: "string \<Rightarrow> string" where
  "url_clean url =
     filter (\<lambda>c. c \<notin> {CHR 0x09, CHR 0x0D, CHR 0x0A}) (dropWhile (\<lambda>c. of_char c \<le> (32::nat)) url)"

text \<open>The text after the scheme, if \<^verbatim>\<open>url[:i]\<close> before the first colon is one.\<close>

definition after_scheme :: "string \<Rightarrow> string" where
  "after_scheme url =
     (let i = length (takeWhile (\<lambda>c. c \<noteq> CHR '':'') url) in
      if i < length url \<and> 0 < i \<and> is_ascii_alpha (hd url) \<and> list_all scheme_char (take i url)
      then drop (Suc i) url else url)"

text \<open>\<^verbatim>\<open>_splitnetloc(url, 2)\<close> when the rest starts with \<^verbatim>\<open>//\<close>, else the empty location.\<close>

definition netloc_of :: "string \<Rightarrow> string" where
  "netloc_of rest =
     (if take 2 rest = ''//'' then takeWhile (\<lambda>c. c \<notin> set ''/?#'') (drop 2 rest) else [])"

definition urlparse_netloc :: "string \<Rightarrow> py_error + string" where
  "urlparse_netloc address =
     (let netloc = netloc_of (after_scheme (url_clean address)) in
      if (CHR ''['' \<in> set netloc \<and> CHR '']'' \<notin> set netloc) \<or>
         (CHR '']'' \<in> set netloc \<and> CHR ''['' \<notin> set netloc)
      then Inl ValueError else Inr netloc)"

section \<open>Registration\<close>

definition register_node :: "string \<Rightarrow> blockchain \<Rightarrow> (py_error + unit) \<times> blockchain" where
  "register_node address st =
     (case urlparse_netloc address of
        Inl e \<Rightarrow> (Inl e, st)
      | Inr netloc \<Rightarrow> (Inr (), st\<lparr>nodes := insert netloc (nodes st)\<rparr>))"

text \<open>
  The \<^verbatim>\<open>for node in nodes: blockchain.register_node(node)\<close> loop of the
  \<^verbatim>\<open>/nodes/register\<close> handler (lines 230--231): an exception ends the loop
  and keeps the registrations made before it.
\<close>

fun register_all :: "string list \<Rightarrow> blockchain \<Rightarrow> (py_error + unit) \<times> blockchain" where
  "register_all [] st = (Inr (), st)"
| "register_all (a # as) st =
     (case register_node a st of (Inl e, st') \<Rightarrow> (Inl e, st') | (Inr _, st') \<Rightarrow> register_all as st')"

text \<open>Printable ASCII without space: what \<open>url_clean\<close> leaves alone.\<close>

definition printable :: "string \<Rightarrow> bool" where
  "printable s \<longleftrightarrow> list_all (\<lambda>c. (32::nat) < of_char c \<and> of_char c < (127::nat)) s"

declare is_ascii_alpha_def [eval_simps] scheme_char_def [eval_simps] url_clean_def [eval_simps]
  after_scheme_def [eval_simps] netloc_of_def [eval_simps] urlparse_netloc_def [eval_simps]
  register_node_def [eval_simps] printable_def [eval_simps]

section \<open>Lemmas\<close>

lemma url_clean_printable: "printable url \<Longrightarrow> url_clean url = url"
proof -
  assume p: "printable url"
  then have "dropWhile (\<lambda>c. of_char c \<le> (32::nat)) url = url"
    by (cases url) (auto simp: printable_def)
  moreover have "\<forall>c\<in>set url. c \<notin> {CHR 0x09, CHR 0x0D, CHR 0x0A}"
    using p by (auto simp: printable_def list_all_iff)
  ultimately show ?thesis by (simp add: url_clean_def)
qed

lemma after_scheme_suffix: "suffix (after_scheme url) url"
  by (simp add: after_scheme_def Let_def suffix_drop)

lemma netloc_of_no_slashes: "\<not> sublist ''//'' r \<Longrightarrow> netloc_of r = []"
proof (rule ccontr)
  assume ns: "\<not> sublist ''//'' r" and "netloc_of r \<noteq> []"
  then have "take 2 r = ''//''" by (simp add: netloc_of_def split: if_splits)
  then have "r = ''//'' @ drop 2 r" by (metis append_take_drop_id)
  then have "sublist ''//'' r" by (metis sublist_append_rightI)
  with ns show False by simp
qed

lemma scheme_takeWhile:
  "list_all scheme_char s \<Longrightarrow> takeWhile (\<lambda>c. c \<noteq> CHR '':'') (s @ CHR '':'' # r) = s"
  by (induction s) (auto simp: scheme_char_def is_ascii_alpha_def is_digit_def)


lemma printable_scheme: "list_all scheme_char s \<Longrightarrow> printable s"
  by (induction s) (auto simp: printable_def scheme_char_def is_ascii_alpha_def is_digit_def)

text \<open>The loop registers the locations up to the first address that raises, and reports that exception.\<close>

lemma register_all_eq:
  "register_all as st =
     ((case dropWhile (Not \<circ> isl) (map urlparse_netloc as) of [] \<Rightarrow> Inr () | p # _ \<Rightarrow> Inl (projl p)),
      st\<lparr>nodes := nodes st \<union> set (map projr (takeWhile (Not \<circ> isl) (map urlparse_netloc as)))\<rparr>)"
proof (induction as arbitrary: st)
  case Nil
  then show ?case by simp
next
  case (Cons a as)
  then show ?case by (cases "urlparse_netloc a") (auto simp: register_node_def)
qed

lemma register_all_chain [simp]: "chain (snd (register_all as st)) = chain st"
  by (simp add: register_all_eq)

lemma register_all_pending [simp]:
  "current_transactions (snd (register_all as st)) = current_transactions st"
  by (simp add: register_all_eq)

lemma urlparse_netloc_scheme:
  assumes s: "s \<noteq> []" "is_ascii_alpha (hd s)" "list_all scheme_char s"
    and h: "printable h" "list_all (\<lambda>c. c \<notin> set ''/?#[]'') h"
    and r: "printable rest" "rest = [] \<or> hd rest \<in> set ''/?#''"
  shows "urlparse_netloc (s @ ''://'' @ h @ rest) = Inr h"
proof -
  let ?u = "s @ ''://'' @ h @ rest"
  have "printable ?u" using s(3) h(1) r(1) printable_scheme [OF s(3)] by (simp add: printable_def)
  then have c: "url_clean ?u = ?u" by (rule url_clean_printable)
  have tw: "takeWhile (\<lambda>c. c \<noteq> CHR '':'') ?u = s"
    using scheme_takeWhile [OF s(3)] by simp
  have "after_scheme ?u = ''//'' @ h @ rest"
    using s tw by (simp add: after_scheme_def Let_def)
  moreover have "takeWhile (\<lambda>c. c \<notin> set ''/?#'') (h @ rest) = h"
    using h(2) r(2) by (cases rest) (auto simp: list_all_iff takeWhile_append2)
  ultimately have "netloc_of (after_scheme ?u) = h" by (simp add: netloc_of_def)
  moreover have "CHR ''['' \<notin> set h" "CHR '']'' \<notin> set h" using h(2) by (auto simp: list_all_iff)
  ultimately show ?thesis using c by (simp add: urlparse_netloc_def)
qed

lemma urlparse_netloc_no_slashes:
  assumes "printable a" and "\<not> sublist ''//'' a"
  shows "urlparse_netloc a = Inr []"
proof -
  have "\<not> sublist ''//'' (after_scheme a)"
    using assms(2) after_scheme_suffix [of a] by (meson sublist_order.order_trans suffix_imp_sublist)
  then have "netloc_of (after_scheme (url_clean a)) = []"
    using url_clean_printable [OF assms(1)] netloc_of_no_slashes by simp
  then show ?thesis by (simp add: urlparse_netloc_def)
qed

section \<open>Properties of the registry\<close>

text \<open>
  C10: registering an address written with a scheme, \<^verbatim>\<open>scheme://host:port\<close>
  optionally followed by a path, query or fragment, adds exactly
  \<^verbatim>\<open>host:port\<close> to the peer set, whatever the scheme.
\<close>

theorem register_node_with_scheme:
  assumes "s \<noteq> []" "is_ascii_alpha (hd s)" "list_all scheme_char s"
    and "printable h" "list_all (\<lambda>c. c \<notin> set ''/?#[]'') h"
    and "printable rest" "rest = [] \<or> hd rest \<in> set ''/?#''"
  shows "register_node (s @ ''://'' @ h @ rest) st = (Inr (), st\<lparr>nodes := insert h (nodes st)\<rparr>)"
  using urlparse_netloc_scheme [OF assms] by (simp add: register_node_def)

theorem register_node_with_scheme_witness:
  "''http'' \<noteq> [] \<and> is_ascii_alpha (hd ''http'') \<and> list_all scheme_char ''http'' \<and>
   printable ''192.168.0.5:5000'' \<and> list_all (\<lambda>c. c \<notin> set ''/?#[]'') ''192.168.0.5:5000'' \<and>
   printable ''/'' \<and> (''/'' = [] \<or> hd ''/'' \<in> set ''/?#'') \<and>
   register_node (''http'' @ ''://'' @ ''192.168.0.5:5000'' @ ''/'')
     \<lparr>chain = [], current_transactions = [], nodes = {}\<rparr> =
   (Inr (), \<lparr>chain = [], current_transactions = [], nodes = {}\<rparr>\<lparr>nodes := insert ''192.168.0.5:5000''
      (nodes \<lparr>chain = [], current_transactions = [], nodes = {}\<rparr>)\<rparr>)"
proof -
  have h: "''http'' \<noteq> [] \<and> is_ascii_alpha (hd ''http'') \<and> list_all scheme_char ''http'' \<and>
    printable ''192.168.0.5:5000'' \<and> list_all (\<lambda>c. c \<notin> set ''/?#[]'') ''192.168.0.5:5000'' \<and>
    printable ''/'' \<and> (''/'' = [] \<or> hd ''/'' \<in> set ''/?#'')"
    by (simp add: eval_simps)
  then show ?thesis
    using register_node_with_scheme [of "''http''" "''192.168.0.5:5000''" "''/''"
        "\<lparr>chain = [], current_transactions = [], nodes = {}\<rparr>"] by blast
qed

text \<open>
  C11: an address with no \<^verbatim>\<open>//\<close> in it, such as \<^verbatim>\<open>192.168.0.5:5000\<close>
  or \<^verbatim>\<open>localhost:5000\<close>, has an empty network location: registering it adds
  the empty string to the peer set, not the host and port.
\<close>

theorem register_node_without_scheme:
  assumes "printable a" and "\<not> sublist ''//'' a"
  shows "register_node a st = (Inr (), st\<lparr>nodes := insert [] (nodes st)\<rparr>)"
  using urlparse_netloc_no_slashes [OF assms] by (simp add: register_node_def)

theorem register_node_without_scheme_witness:
  "printable ''192.168.0.5:5000'' \<and> \<not> sublist ''//'' ''192.168.0.5:5000'' \<and>
   register_node ''192.168.0.5:5000'' \<lparr>chain = [], current_transactions = [], nodes = {}\<rparr> =
   (Inr (), \<lparr>chain = [], current_transactions = [], nodes = {}\<rparr>\<lparr>nodes := insert []
      (nodes \<lparr>chain = [], current_transactions = [], nodes = {}\<rparr>)\<rparr>)"
proof -
  have p: "printable ''192.168.0.5:5000''" by (simp add: eval_simps)
  have n: "\<not> sublist ''//'' ''192.168.0.5:5000''" by code_simp
  show ?thesis using p n register_node_without_scheme [OF p n] by blast
qed

end
