(* ===== verification/Node.thy ===== *)
theory Node
  imports Consensus Registry
begin

text \<open>
  The node as the HTTP layer drives it (\<^verbatim>\<open>src/blockchain.py\<close>, lines
  164--255). The \<^verbatim>\<open>/mine\<close> handler composes the core: it reads the last
  block's proof, runs the proof-of-work search, appends the reward
  transaction and seals a block. The search may run for ever, so the handler
  returns an option, \<open>None\<close> for a request that never completes. The node's
  life is a step relation: one step per request that changes the state
  (mining, submitting a transaction, registering a peer, resolving), with the
  clock, the peers' answers and the set's iteration order chosen by the
  environment. The invariant proved over every reachable state is the Chain
  invariant of the specification: the chain is non-empty and every block is
  hash-linked to, and solves the puzzle after, its predecessor.
\<close>

section \<open>The mining handler\<close>

text \<open>
  \<^verbatim>\<open>mine()\<close>: \<^verbatim>\<open>blockchain.last_block\<close>, \<^verbatim>\<open>proof_of_work(last_proof)\<close>,
  \<^verbatim>\<open>new_transaction(sender="0", recipient=node_identifier, amount=1)\<close>,
  \<^verbatim>\<open>new_block(proof)\<close>. The response reports the sealed block's fields.
\<close>

definition mine ::
  "hasher \<Rightarrow> string \<Rightarrow> pyfloat \<Rightarrow> blockchain \<Rightarrow> ((py_error + block) \<times> blockchain) option"
where
  "mine H node_identifier now st =
     (case last_block st of
        Inl e \<Rightarrow> Some (Inl e, st)
      | Inr lb \<Rightarrow>
          (case proof_of_work H (proof_val lb) of
             None \<Rightarrow> None
           | Some prf \<Rightarrow>
               (let st1 = snd (new_transaction (JStr ''0'') (JStr node_identifier) (JInt 1) st)
                in Some (new_block H now prf None st1))))"

section \<open>The handlers and their replies\<close>

text \<open>
  What a handler sends back: one constructor per reply of the source, with the
  values the JSON body carries, and \<open>ServerError\<close> for an exception that
  escapes the handler (Flask answers it with status 500).
  \<^item> \<open>Forged\<close>: 200, \<^verbatim>\<open>'New Block Forged'\<close> with the block's index, transactions,
    proof and previous hash (lines 190--197);
  \<^item> \<open>TxAdded\<close>: 201, \<^verbatim>\<open>'Transaction will be added to Block {index}'\<close> (209--210);
  \<^item> \<open>MissingValues\<close>: 400, \<^verbatim>\<open>'Missing values'\<close> (205);
  \<^item> \<open>FullChain\<close>: 200, the chain and its length (215--219);
  \<^item> \<open>NodesMissing\<close>: 400, \<^verbatim>\<open>'Error: Please supply a valid list of nodes'\<close> (228);
  \<^item> \<open>NodesAdded\<close>: 201, \<^verbatim>\<open>list(blockchain.nodes)\<close>, whose order Python does not fix (233--237);
  \<^item> \<open>Replaced\<close> and \<open>Authoritative\<close>: 200, with the chain after resolution (244--255).
\<close>

datatype reply =
    Forged int "transaction list" int string
  | TxAdded int
  | MissingValues
  | FullChain "block list" int
  | NodesMissing
  | NodesAdded "string set"
  | Replaced "block list"
  | Authoritative "block list"
  | ServerError py_error

definition mine_endpoint ::
  "hasher \<Rightarrow> string \<Rightarrow> pyfloat \<Rightarrow> blockchain \<Rightarrow> (reply \<times> blockchain) option"
where
  "mine_endpoint H nid now st =
     map_option (\<lambda>(res, st'). (case res of
                                  Inl e \<Rightarrow> ServerError e
                                | Inr b \<Rightarrow> Forged (index b) (transactions b) (proof_val b) (previous_hash b),
                                st'))
       (mine H nid now st)"

text \<open>
  \<^verbatim>\<open>POST /transactions/new\<close> on the decoded body \<open>values\<close>: the membership
  test of the three keys, then \<^verbatim>\<open>values[k]\<close> for each argument, left to
  right, then the method.
\<close>

definition new_transaction_endpoint :: "json \<Rightarrow> blockchain \<Rightarrow> reply \<times> blockchain" where
  "new_transaction_endpoint values st =
     (case py_all_in [''sender'', ''recipient'', ''amount''] values of
        Inl e \<Rightarrow> (ServerError e, st)
      | Inr False \<Rightarrow> (MissingValues, st)
      | Inr True \<Rightarrow>
          (case bind_sum (py_getitem values ''sender'') (\<lambda>s.
                bind_sum (py_getitem values ''recipient'') (\<lambda>r.
                bind_sum (py_getitem values ''amount'') (\<lambda>a. Inr (s, r, a)))) of
             Inl e \<Rightarrow> (ServerError e, st)
           | Inr (s, r, a) \<Rightarrow>
               (case new_transaction s r a st of
                  (Inl e, st') \<Rightarrow> (ServerError e, st')
                | (Inr i, st') \<Rightarrow> (TxAdded i, st'))))"

definition full_chain :: "blockchain \<Rightarrow> reply \<times> blockchain" where
  "full_chain st = (FullChain (chain st) (int (length (chain st))), st)"

text \<open>
  \<^verbatim>\<open>POST /nodes/register\<close> on \<^verbatim>\<open>values.get('nodes')\<close>: \<open>None\<close> when the
  key is missing or null, otherwise the list of addresses.
\<close>

definition register_nodes :: "string list option \<Rightarrow> blockchain \<Rightarrow> reply \<times> blockchain" where
  "register_nodes nodes_val st =
     (case nodes_val of
        None \<Rightarrow> (NodesMissing, st)
      | Some addrs \<Rightarrow>
          (case register_all addrs st of
             (Inl e, st') \<Rightarrow> (ServerError e, st')
           | (Inr _, st') \<Rightarrow> (NodesAdded (nodes st'), st')))"

definition consensus :: "hasher \<Rightarrow> network \<Rightarrow> string list \<Rightarrow> blockchain \<Rightarrow> reply \<times> blockchain" where
  "consensus H net order st =
     (case resolve_conflicts H net order st of
        (Inl e, st') \<Rightarrow> (ServerError e, st')
      | (Inr replaced, st') \<Rightarrow>
          (if replaced then Replaced (chain st') else Authoritative (chain st'), st'))"

section \<open>Requests and runs\<close>

text \<open>
  The requests, one constructor per endpoint: \<^verbatim>\<open>GET /mine\<close> at a time
  \<open>now\<close>, \<^verbatim>\<open>POST /transactions/new\<close> with its decoded body,
  \<^verbatim>\<open>GET /chain\<close>, \<^verbatim>\<open>POST /nodes/register\<close> with its \<^verbatim>\<open>nodes\<close> value,
  and \<^verbatim>\<open>GET /nodes/resolve\<close> with the peers' answers and the order in which
  the loop visits the peer set.
\<close>

datatype request =
    Mine pyfloat
  | SubmitTx json
  | GetChain
  | RegisterNodes "string list option"
  | Resolve network "string list"

text \<open>Flask's dispatch; \<open>None\<close> when the mining search never returns.\<close>

definition handle :: "hasher \<Rightarrow> string \<Rightarrow> request \<Rightarrow> blockchain \<Rightarrow> (reply \<times> blockchain) option" where
  "handle H nid req st =
     (case req of
        Mine now \<Rightarrow> mine_endpoint H nid now st
      | SubmitTx values \<Rightarrow> Some (new_transaction_endpoint values st)
      | GetChain \<Rightarrow> Some (full_chain st)
      | RegisterNodes nodes_val \<Rightarrow> Some (register_nodes nodes_val st)
      | Resolve net order \<Rightarrow> Some (consensus H net order st))"

text \<open>One request's effect on the state.\<close>

definition apply_request :: "hasher \<Rightarrow> string \<Rightarrow> request \<Rightarrow> blockchain \<Rightarrow> blockchain option" where
  "apply_request H nid req st = map_option snd (handle H nid req st)"

text \<open>A resolution visits every registered peer once.\<close>

definition order_ok :: "blockchain \<Rightarrow> request \<Rightarrow> bool" where
  "order_ok st req =
     (case req of Resolve net order \<Rightarrow> set order = nodes st \<and> distinct order | _ \<Rightarrow> True)"

inductive reachable :: "hasher \<Rightarrow> string \<Rightarrow> blockchain \<Rightarrow> bool"
  for H :: hasher and nid :: string
where
  start: "reachable H nid (init_blockchain H now)"
| step: "reachable H nid st \<Longrightarrow> order_ok st req \<Longrightarrow> apply_request H nid req st = Some st'
         \<Longrightarrow> reachable H nid st'"

text \<open>A run of requests, served one after the other.\<close>

fun run :: "hasher \<Rightarrow> string \<Rightarrow> request list \<Rightarrow> blockchain \<Rightarrow> blockchain option" where
  "run H nid [] st = Some st"
| "run H nid (req # reqs) st =
     (if order_ok st req
      then (case apply_request H nid req st of None \<Rightarrow> None | Some st' \<Rightarrow> run H nid reqs st')
      else None)"

definition is_resolve :: "request \<Rightarrow> bool" where
  "is_resolve req = (case req of Resolve _ _ \<Rightarrow> True | _ \<Rightarrow> False)"

text \<open>The Chain invariant: a non-empty chain whose neighbours are all linked.\<close>

definition chain_inv :: "hasher \<Rightarrow> blockchain \<Rightarrow> bool" where
  "chain_inv H st \<longleftrightarrow> chain st \<noteq> [] \<and> chain_links H (chain st)"

text \<open>Blocks numbered 1, 2, ... in chain order.\<close>

definition indices_ok :: "blockchain \<Rightarrow> bool" where
  "indices_ok st \<longleftrightarrow> map index (chain st) = map (\<lambda>i. int i + 1) [0..<length (chain st)]"

text \<open>The reward transaction and the block \<^verbatim>\<open>mine()\<close> seals with proof \<open>p\<close>.\<close>

definition reward :: "string \<Rightarrow> transaction" where
  "reward nid = \<lparr>sender = JStr ''0'', recipient = JStr nid, amount = JInt 1\<rparr>"

definition sealed_block :: "hasher \<Rightarrow> string \<Rightarrow> pyfloat \<Rightarrow> blockchain \<Rightarrow> int \<Rightarrow> block" where
  "sealed_block H nid now st p =
     \<lparr>index = int (length (chain st)) + 1, timestamp = now,
      transactions = current_transactions st @ [reward nid], proof_val = p,
      previous_hash = hash H (block_to_json (last (chain st)))\<rparr>"

section \<open>Example runs\<close>

definition ex_init :: blockchain where
  "ex_init = init_blockchain toy_sha ''1700000000.0''"

definition ex_tx :: request where
  "ex_tx = SubmitTx (JObj [(''sender'', JStr ''A''), (''recipient'', JStr ''B''), (''amount'', JInt 10)])"

text \<open>The state after mining once on the initial chain, with the stand-in digest (proof 7).\<close>

definition ex_mined :: blockchain where
  "ex_mined = \<lparr>chain = [ex_genesis, sealed_block toy_sha ''node1'' ''1700000001.5'' ex_init 7],
                current_transactions = [], nodes = {}\<rparr>"

text \<open>
  The scenario of the specification: one transaction A to B of 10 submitted on
  the initial chain, then one block mined.
\<close>

definition ex_pending :: blockchain where
  "ex_pending = \<lparr>chain = [ex_genesis],
     current_transactions = [\<lparr>sender = JStr ''A'', recipient = JStr ''B'', amount = JInt 10\<rparr>],
     nodes = {}\<rparr>"

definition ex_scenario :: blockchain where
  "ex_scenario = \<lparr>chain = [ex_genesis, sealed_block toy_sha ''node1'' ''1700000001.5'' ex_pending 7],
                   current_transactions = [], nodes = {}\<rparr>"

text \<open>A peer whose one-block chain numbers its block 7, and a node that adopted it.\<close>

definition ex_block7 :: block where
  "ex_block7 = ex_genesis\<lparr>index := 7\<rparr>"

definition ex_adopted :: blockchain where
  "ex_adopted = \<lparr>chain = [ex_block7], current_transactions = [], nodes = {''node2:5000''}\<rparr>"

declare mine_def [eval_simps] ex_init_def [eval_simps] apply_request_def [eval_simps]
  order_ok_def [eval_simps] ex_tx_def [eval_simps] handle_def [eval_simps]
  mine_endpoint_def [eval_simps] new_transaction_endpoint_def [eval_simps]
  full_chain_def [eval_simps] register_nodes_def [eval_simps] consensus_def [eval_simps]

section \<open>Lemmas and properties\<close>

subsection \<open>Each request's effect on the state\<close>

lemma apply_request_Mine: "apply_request H nid (Mine now) st = map_option snd (mine H nid now st)"
  by (simp add: apply_request_def handle_def mine_endpoint_def option.map_comp comp_def
      case_prod_beta)

lemma apply_request_Resolve:
  "apply_request H nid (Resolve net order) st = Some (snd (resolve_conflicts H net order st))"
  by (simp add: apply_request_def handle_def consensus_def split: prod.split sum.split)

lemma apply_request_SubmitTx:
  "apply_request H nid (SubmitTx v) st = Some (snd (new_transaction_endpoint v st))"
  by (simp add: apply_request_def handle_def)

lemma apply_request_RegisterNodes:
  "apply_request H nid (RegisterNodes x) st = Some (snd (register_nodes x st))"
  by (simp add: apply_request_def handle_def)

text \<open>The transaction endpoint either leaves the state alone or runs the method once.\<close>

lemma new_transaction_endpoint_state:
  "snd (new_transaction_endpoint v st) = st \<or>
   (\<exists>s r a. snd (new_transaction_endpoint v st) = snd (new_transaction s r a st))"
  by (auto simp: new_transaction_endpoint_def split: sum.split bool.split prod.split) (metis snd_conv)+

lemma register_nodes_state:
  "snd (register_nodes x st) = (case x of None \<Rightarrow> st | Some addrs \<Rightarrow> snd (register_all addrs st))"
  by (simp add: register_nodes_def split: option.split prod.split sum.split)

lemma register_nodes_chain [simp]: "chain (snd (register_nodes x st)) = chain st"
  by (simp add: register_nodes_state split: option.split)

lemma register_nodes_pending [simp]:
  "current_transactions (snd (register_nodes x st)) = current_transactions st"
  by (simp add: register_nodes_state split: option.split)

text \<open>Only mining and resolution change the chain.\<close>

lemma apply_request_keeps_chain:
  assumes "apply_request H nid req st = Some st'" and "\<forall>now. req \<noteq> Mine now" and "\<not> is_resolve req"
  shows "chain st' = chain st"
proof (cases req)
  case (SubmitTx v)
  with assms(1) have "st' = snd (new_transaction_endpoint v st)"
    by (simp add: apply_request_def handle_def)
  with new_transaction_endpoint_state [of v st] show ?thesis by auto
qed (use assms in \<open>auto simp: apply_request_def handle_def full_chain_def is_resolve_def\<close>)

lemma mine_Some_iff:
  assumes "chain st \<noteq> []"
  shows "mine H nid now st = Some (res, st') \<longleftrightarrow>
    (\<exists>p. proof_of_work H (proof_val (last (chain st))) = Some p \<and>
         res = Inr (sealed_block H nid now st p) \<and>
         st' = st\<lparr>current_transactions := [], chain := chain st @ [sealed_block H nid now st p]\<rparr>)"
  using assms
  by (auto simp: mine_def last_block_def new_transaction_def new_block_def sealed_block_def
      reward_def Let_def split: option.splits)

lemma mine_chain_inv:
  assumes "mine H nid now st = Some (res, st')" and "chain_inv H st"
  shows "chain_inv H st'"
proof -
  from assms(2) have ne: "chain st \<noteq> []" by (simp add: chain_inv_def)
  with assms(1) obtain p where p: "proof_of_work H (proof_val (last (chain st))) = Some p"
    and st': "st' = st\<lparr>current_transactions := [], chain := chain st @ [sealed_block H nid now st p]\<rparr>"
    by (auto simp: mine_Some_iff)
  have "linked H (last (chain st)) (sealed_block H nid now st p)"
    using proof_of_work_valid [OF p] by (simp add: linked_def sealed_block_def)
  with assms(2) st' show ?thesis by (simp add: chain_inv_def chain_links_append)
qed

lemma apply_request_chain_inv:
  assumes "apply_request H nid req st = Some st'" and "chain_inv H st"
  shows "chain_inv H st'"
proof (cases "\<exists>now. req = Mine now")
  case True
  with assms obtain now res where "mine H nid now st = Some (res, st')"
    by (auto simp: apply_request_Mine)
  then show ?thesis using assms(2) by (rule mine_chain_inv)
next
  case notmine: False
  show ?thesis
  proof (cases req)
    case (Resolve net order)
    with assms(1) have st': "st' = snd (resolve_conflicts H net order st)"
      by (simp add: apply_request_Resolve)
    from resolve_conflicts_effect [of H net order st] assms(2) show ?thesis
      by (auto simp: st' chain_inv_def)
  qed (use assms notmine apply_request_keeps_chain [OF assms(1)] in
        \<open>auto simp: chain_inv_def is_resolve_def\<close>)
qed

lemma reachable_chain_inv: "reachable H nid st \<Longrightarrow> chain_inv H st"
proof (induction rule: reachable.induct)
  case (start now)
  then show ?case by (simp add: chain_inv_def init_blockchain_eq)
next
  case (step st req st')
  then show ?case by (blast intro: apply_request_chain_inv)
qed

text \<open>
  C1: in every state the node can reach from its constructor through any
  sequence of requests (mining, transactions, peer registrations,
  resolutions), \<^verbatim>\<open>valid_chain\<close> accepts the node's own chain: it is
  non-empty and every block carries the hash of its predecessor and solves
  the puzzle after its predecessor's proof.
\<close>

theorem reachable_chain_valid:
  "reachable H nid st \<Longrightarrow> valid_chain H (chain st) = Inr True"
  using reachable_chain_inv by (simp add: chain_inv_def valid_chain_True)

lemma ex_init_eq:
  "ex_init = \<lparr>chain = [ex_genesis], current_transactions = [], nodes = {}\<rparr>"
  by (simp add: ex_init_def init_blockchain_eq ex_genesis_def)

lemma pow_toy_100: "proof_of_work toy_sha 100 = Some 7"
  by (simp add: proof_of_work_def pow_loop.simps valid_proof_def toy_sha_def eval_simps)

lemma ex_init_reachable: "reachable toy_sha ''node1'' ex_init"
  unfolding ex_init_def by (rule reachable.start)


lemma ex_mined_step:
  "apply_request toy_sha ''node1'' (Mine ''1700000001.5'') ex_init = Some ex_mined"
proof -
  have "mine toy_sha ''node1'' ''1700000001.5'' ex_init
        = Some (Inr (sealed_block toy_sha ''node1'' ''1700000001.5'' ex_init 7), ex_mined)"
    using pow_toy_100 by (simp add: mine_Some_iff ex_init_eq ex_mined_def ex_genesis_def)
  then show ?thesis by (simp add: apply_request_Mine)
qed

lemma ex_mined_reachable: "reachable toy_sha ''node1'' ex_mined"
  by (rule reachable.step [OF ex_init_reachable _ ex_mined_step]) (simp add: order_ok_def)

theorem reachable_chain_valid_witness:
  "reachable toy_sha ''node1'' ex_mined \<and> valid_chain toy_sha (chain ex_mined) = Inr True"
  using ex_mined_reachable reachable_chain_valid by blast

text \<open>
  C6: on a non-empty chain, \<^verbatim>\<open>mine()\<close> returns exactly when the
  proof-of-work search does; it then seals and appends one block with index
  \<^verbatim>\<open>len(chain) + 1\<close>, the pending transactions followed by the reward, the
  proof found and the hash of the previous last block, and empties the
  pending list.
\<close>

theorem mine_spec:
  assumes "chain st \<noteq> []"
  shows "mine H nid now st =
    map_option (\<lambda>p. (Inr (sealed_block H nid now st p),
                      st\<lparr>current_transactions := [], chain := chain st @ [sealed_block H nid now st p]\<rparr>))
      (proof_of_work H (proof_val (last (chain st))))"
proof (cases "proof_of_work H (proof_val (last (chain st)))")
  case None
  with assms show ?thesis by (simp add: mine_def last_block_def)
next
  case (Some p)
  with assms show ?thesis by (simp add: mine_Some_iff)
qed

theorem mine_spec_witness:
  "chain ex_init \<noteq> [] \<and>
   mine toy_sha ''node1'' ''1700000001.5'' ex_init =
    map_option (\<lambda>p. (Inr (sealed_block toy_sha ''node1'' ''1700000001.5'' ex_init p),
                      ex_init\<lparr>current_transactions := [],
                        chain := chain ex_init @ [sealed_block toy_sha ''node1'' ''1700000001.5'' ex_init p]\<rparr>))
      (proof_of_work toy_sha (proof_val (last (chain ex_init))))"
proof -
  have h: "chain ex_init \<noteq> []" by (simp add: ex_init_eq)
  show ?thesis by (rule conjI [OF h mine_spec [OF h]])
qed

lemma indices_ok_snoc:
  "indices_ok st \<Longrightarrow> index b = int (length (chain st)) + 1 \<Longrightarrow> chain st' = chain st @ [b]
   \<Longrightarrow> indices_ok st'"
  by (simp add: indices_ok_def)

lemma apply_request_indices_ok:
  assumes "apply_request H nid req st = Some st'" and "\<not> is_resolve req"
    and "indices_ok st" and "chain st \<noteq> []"
  shows "indices_ok st' \<and> chain st' \<noteq> []"
proof (cases "\<exists>now. req = Mine now")
  case True
  with assms(1) obtain now res where "mine H nid now st = Some (res, st')"
    by (auto simp: apply_request_Mine)
  with assms(4) obtain p where
    st': "st' = st\<lparr>current_transactions := [], chain := chain st @ [sealed_block H nid now st p]\<rparr>"
    by (auto simp: mine_Some_iff)
  with assms(3) show ?thesis
    by (simp add: indices_ok_def sealed_block_def)
next
  case False
  then have "chain st' = chain st" using apply_request_keeps_chain [OF assms(1)] assms(2) by blast
  with assms(3,4) show ?thesis by (simp add: indices_ok_def)
qed

lemma run_local_indices:
  "run H nid reqs st = Some st' \<Longrightarrow> \<not> list_ex is_resolve reqs \<Longrightarrow>
   indices_ok st \<Longrightarrow> chain st \<noteq> [] \<Longrightarrow> indices_ok st' \<and> chain st' \<noteq> []"
proof (induction reqs arbitrary: st)
  case Nil
  then show ?case by simp
next
  case (Cons req reqs)
  from Cons.prems(1) obtain st1 where st1: "apply_request H nid req st = Some st1"
    and rest: "run H nid reqs st1 = Some st'"
    by (auto split: if_splits option.splits)
  from apply_request_indices_ok [OF st1] Cons.prems(2-4)
  have "indices_ok st1 \<and> chain st1 \<noteq> []" by simp
  with Cons.IH [OF rest] Cons.prems(2) show ?case by simp
qed

lemma indices_ok_last:
  "indices_ok st \<Longrightarrow> chain st \<noteq> [] \<Longrightarrow> index (last (chain st)) = int (length (chain st))"
proof -
  assume ok: "indices_ok st" and ne: "chain st \<noteq> []"
  have "index (last (chain st)) = last (map index (chain st))"
    using ne by (simp add: last_map)
  also have "\<dots> = last (map (\<lambda>i. int i + 1) [0..<length (chain st)])"
    using ok by (simp add: indices_ok_def)
  also have "\<dots> = int (length (chain st))"
    using ne by (cases "length (chain st)") (simp_all add: last_map)
  finally show ?thesis .
qed


text \<open>
  C7: in a run from the constructor that never resolves conflicts,
  \<^verbatim>\<open>new_transaction\<close> returns the index the next block will have,
  \<^verbatim>\<open>len(chain) + 1\<close>.
\<close>

theorem local_run_transaction_index:
  assumes "run H nid reqs (init_blockchain H now) = Some st" and "\<not> list_ex is_resolve reqs"
  shows "fst (new_transaction s r a st) = Inr (int (length (chain st)) + 1)"
proof -
  have "indices_ok (init_blockchain H now) \<and> chain (init_blockchain H now) \<noteq> []"
    by (simp add: init_blockchain_eq indices_ok_def)
  with run_local_indices [OF assms] have "indices_ok st" and "chain st \<noteq> []" by auto
  then show ?thesis
    by (simp add: new_transaction_def last_block_def Let_def indices_ok_last)
qed

lemma ex_scenario_run:
  "run toy_sha ''node1'' [ex_tx, Mine ''1700000001.5''] (init_blockchain toy_sha ''1700000000.0'')
   = Some ex_scenario"
proof -
  have tx: "snd (new_transaction_endpoint
                 (JObj [(''sender'', JStr ''A''), (''recipient'', JStr ''B''), (''amount'', JInt 10)])
                 (init_blockchain toy_sha ''1700000000.0'')) = ex_pending"
    by (simp add: new_transaction_endpoint_def py_in_def py_getitem_def bind_sum_def
        new_transaction_def init_blockchain_eq ex_pending_def ex_genesis_def last_block_def Let_def)
  have m: "mine toy_sha ''node1'' ''1700000001.5'' ex_pending
        = Some (Inr (sealed_block toy_sha ''node1'' ''1700000001.5'' ex_pending 7), ex_scenario)"
    using pow_toy_100 by (simp add: mine_Some_iff ex_pending_def ex_scenario_def ex_genesis_def)
  show ?thesis
    by (simp add: ex_tx_def apply_request_SubmitTx apply_request_Mine order_ok_def tx m)
qed

theorem local_run_transaction_index_witness:
  "run toy_sha ''node1'' [ex_tx, Mine ''1700000001.5''] (init_blockchain toy_sha ''1700000000.0'')
     = Some (the (run toy_sha ''node1'' [ex_tx, Mine ''1700000001.5''] (init_blockchain toy_sha ''1700000000.0''))) \<and>
   \<not> list_ex is_resolve [ex_tx, Mine ''1700000001.5''] \<and>
   fst (new_transaction (JStr ''C'') (JStr ''D'') (JInt 5)
      (the (run toy_sha ''node1'' [ex_tx, Mine ''1700000001.5''] (init_blockchain toy_sha ''1700000000.0''))))
   = Inr (int (length (chain (the (run toy_sha ''node1'' [ex_tx, Mine ''1700000001.5''] (init_blockchain toy_sha ''1700000000.0''))))) + 1)"
proof -
  have h1: "run toy_sha ''node1'' [ex_tx, Mine ''1700000001.5''] (init_blockchain toy_sha ''1700000000.0'')
     = Some (the (run toy_sha ''node1'' [ex_tx, Mine ''1700000001.5''] (init_blockchain toy_sha ''1700000000.0'')))"
    by (simp only: ex_scenario_run option.sel)
  have h2: "\<not> list_ex is_resolve [ex_tx, Mine ''1700000001.5'']"
    by (simp add: is_resolve_def ex_tx_def)
  show ?thesis using local_run_transaction_index [OF h1 h2] h1 h2 by blast
qed

text \<open>
  After the node adopts a peer's chain, \<^verbatim>\<open>new_transaction\<close> no longer
  returns \<^verbatim>\<open>len(chain) + 1\<close>: it returns the last block's own index plus
  one, which \<^verbatim>\<open>valid_chain\<close> never checked (here 8 on a one-block chain).
\<close>

theorem resolve_breaks_transaction_index:
  "run toy_sha ''node1''
      [RegisterNodes (Some [''http://node2:5000'']), Resolve (ex_peer 5 [ex_block7]) [''node2:5000'']]
      (init_blockchain toy_sha ''1700000000.0'') = Some ex_adopted \<and>
   fst (new_transaction s r a ex_adopted) = Inr 8 \<and>
   int (length (chain ex_adopted)) + 1 = 2"
  by (simp add: apply_request_RegisterNodes apply_request_Resolve register_nodes_def
      register_node_def urlparse_netloc_def url_clean_def after_scheme_def netloc_of_def
      scheme_char_def is_ascii_alpha_def is_digit_def
      order_ok_def init_blockchain_eq resolve_conflicts_def ex_peer_def
      valid_chain_nonempty ex_adopted_def new_transaction_def last_block_def Let_def ex_block7_def
      ex_genesis_def)

text \<open>
  The scenario of the specification: on a freshly constructed node,
  submitting the transaction A to B of 10 returns index 2, and mining then
  seals block 2 with the submitted transaction first and the reward last,
  and leaves no pending transaction.
\<close>

theorem scenario_transaction_then_mine:
  assumes "valid_proof H 100 (int n)"
  shows "\<exists>p b st'.
    new_transaction (JStr ''A'') (JStr ''B'') (JInt 10) (init_blockchain H now)
      = (Inr 2, (init_blockchain H now)\<lparr>current_transactions :=
            [\<lparr>sender = JStr ''A'', recipient = JStr ''B'', amount = JInt 10\<rparr>]\<rparr>) \<and>
    mine H nid now' (snd (new_transaction (JStr ''A'') (JStr ''B'') (JInt 10) (init_blockchain H now)))
      = Some (Inr b, st') \<and>
    index b = 2 \<and> proof_val b = p \<and> valid_proof H 100 p \<and>
    transactions b = [\<lparr>sender = JStr ''A'', recipient = JStr ''B'', amount = JInt 10\<rparr>, reward nid] \<and>
    current_transactions st' = [] \<and> chain st' = chain (init_blockchain H now) @ [b]"
proof -
  obtain p where p: "proof_of_work H 100 = Some p"
    using assms proof_of_work_None_iff [of H 100] by (cases "proof_of_work H 100") auto
  let ?st1 = "(init_blockchain H now)\<lparr>current_transactions :=
            [\<lparr>sender = JStr ''A'', recipient = JStr ''B'', amount = JInt 10\<rparr>]\<rparr>"
  have tx: "new_transaction (JStr ''A'') (JStr ''B'') (JInt 10) (init_blockchain H now) = (Inr 2, ?st1)"
    by (simp add: new_transaction_def init_blockchain_eq last_block_def Let_def)
  have "mine H nid now' ?st1 = Some (Inr (sealed_block H nid now' ?st1 p),
          ?st1\<lparr>current_transactions := [], chain := chain ?st1 @ [sealed_block H nid now' ?st1 p]\<rparr>)"
    using p by (simp add: mine_Some_iff init_blockchain_eq)
  with tx proof_of_work_valid [OF p] show ?thesis
    by (auto simp: sealed_block_def init_blockchain_eq)
qed

theorem scenario_transaction_then_mine_witness:
  "valid_proof toy_sha 100 (int 7) \<and>
   (\<exists>p b st'.
    new_transaction (JStr ''A'') (JStr ''B'') (JInt 10) (init_blockchain toy_sha ''1700000000.0'')
      = (Inr 2, (init_blockchain toy_sha ''1700000000.0'')\<lparr>current_transactions :=
            [\<lparr>sender = JStr ''A'', recipient = JStr ''B'', amount = JInt 10\<rparr>]\<rparr>) \<and>
    mine toy_sha ''node1'' ''1700000001.5''
      (snd (new_transaction (JStr ''A'') (JStr ''B'') (JInt 10) (init_blockchain toy_sha ''1700000000.0'')))
      = Some (Inr b, st') \<and>
    index b = 2 \<and> proof_val b = p \<and> valid_proof toy_sha 100 p \<and>
    transactions b = [\<lparr>sender = JStr ''A'', recipient = JStr ''B'', amount = JInt 10\<rparr>, reward ''node1''] \<and>
    current_transactions st' = [] \<and> chain st' = chain (init_blockchain toy_sha ''1700000000.0'') @ [b])"
proof -
  have h: "valid_proof toy_sha 100 (int 7)" using valid_proof_toy_7 by simp
  show ?thesis by (rule conjI [OF h scenario_transaction_then_mine [OF h]])
qed

section \<open>Properties of the request handlers\<close>

text \<open>
  C12: \<^verbatim>\<open>POST /transactions/new\<close> with a JSON object as body: when the three
  keys are present, the handler queues one transaction with their values (the
  last value of a repeated key) and answers 201 with the index of the block
  that will hold it; otherwise it answers 400 \<^verbatim>\<open>Missing values\<close> and
  changes nothing.
\<close>

theorem new_transaction_endpoint_dict:
  assumes "chain st \<noteq> []"
  shows "new_transaction_endpoint (JObj kvs) st =
    (if list_all (\<lambda>k. k \<in> set (map fst kvs)) [''sender'', ''recipient'', ''amount'']
     then (TxAdded (index (last (chain st)) + 1),
           st\<lparr>current_transactions := current_transactions st @
              [\<lparr>sender = the (map_of (rev kvs) ''sender''),
                recipient = the (map_of (rev kvs) ''recipient''),
                amount = the (map_of (rev kvs) ''amount'')\<rparr>]\<rparr>)
     else (MissingValues, st))"
  using assms
  by (auto simp: new_transaction_endpoint_def py_all_in_JObj py_getitem_JObj bind_sum_def
      new_transaction_def last_block_def Let_def)

theorem new_transaction_endpoint_dict_witness:
  "chain ex_init \<noteq> [] \<and>
   new_transaction_endpoint
     (JObj [(''sender'', JStr ''A''), (''recipient'', JStr ''B''), (''amount'', JInt 10)]) ex_init =
    (if list_all (\<lambda>k. k \<in> set (map fst
          [(''sender'', JStr ''A''), (''recipient'', JStr ''B''), (''amount'', JInt 10)]))
          [''sender'', ''recipient'', ''amount'']
     then (TxAdded (index (last (chain ex_init)) + 1),
           ex_init\<lparr>current_transactions := current_transactions ex_init @
              [\<lparr>sender = the (map_of (rev
                   [(''sender'', JStr ''A''), (''recipient'', JStr ''B''), (''amount'', JInt 10)]) ''sender''),
                recipient = the (map_of (rev
                   [(''sender'', JStr ''A''), (''recipient'', JStr ''B''), (''amount'', JInt 10)]) ''recipient''),
                amount = the (map_of (rev
                   [(''sender'', JStr ''A''), (''recipient'', JStr ''B''), (''amount'', JInt 10)]) ''amount'')\<rparr>]\<rparr>)
     else (MissingValues, ex_init))"
proof -
  have h: "chain ex_init \<noteq> []" by (simp add: ex_init_eq)
  show ?thesis by (rule conjI [OF h new_transaction_endpoint_dict [OF h]])
qed

text \<open>
  C13: a body that is not a JSON object never queues a transaction and never
  changes the state; unless the membership test fails outright (a 400), the
  handler raises \<^verbatim>\<open>TypeError\<close> (a 500). A list or a string that contains the
  three key names passes the membership test and then fails at
  \<^verbatim>\<open>values['sender']\<close>.
\<close>

theorem new_transaction_endpoint_non_dict:
  assumes "\<forall>kvs. v \<noteq> JObj kvs"
  shows "new_transaction_endpoint v st =
    (if py_all_in [''sender'', ''recipient'', ''amount''] v = Inr False
     then MissingValues else ServerError TypeError, st)"
  using assms py_all_in_error [of "[''sender'', ''recipient'', ''amount'']" v]
  by (auto simp: new_transaction_endpoint_def py_getitem_not_JObj bind_sum_def
      split: sum.split bool.split)

theorem new_transaction_endpoint_non_dict_witness:
  "(\<forall>kvs. JList [JStr ''sender'', JStr ''recipient'', JStr ''amount''] \<noteq> JObj kvs) \<and>
   new_transaction_endpoint (JList [JStr ''sender'', JStr ''recipient'', JStr ''amount'']) ex_init =
    (if py_all_in [''sender'', ''recipient'', ''amount'']
          (JList [JStr ''sender'', JStr ''recipient'', JStr ''amount'']) = Inr False
     then MissingValues else ServerError TypeError, ex_init) \<and>
   py_all_in [''sender'', ''recipient'', ''amount'']
     (JList [JStr ''sender'', JStr ''recipient'', JStr ''amount'']) = Inr True"
proof -
  have h: "\<forall>kvs. JList [JStr ''sender'', JStr ''recipient'', JStr ''amount''] \<noteq> JObj kvs" by simp
  have t: "py_all_in [''sender'', ''recipient'', ''amount'']
     (JList [JStr ''sender'', JStr ''recipient'', JStr ''amount'']) = Inr True"
    by (simp add: py_in_def)
  show ?thesis using new_transaction_endpoint_non_dict [OF h, of ex_init] h t by blast
qed

text \<open>
  C14: \<^verbatim>\<open>POST /nodes/register\<close> with a list of addresses that all parse adds
  every network location to the peer set and answers 201 with the whole set.
\<close>

theorem register_nodes_adds:
  assumes "map urlparse_netloc addrs = map Inr locs"
  shows "register_nodes (Some addrs) st =
    (NodesAdded (nodes st \<union> set locs), st\<lparr>nodes := nodes st \<union> set locs\<rparr>)"
proof -
  have "register_all addrs st = (Inr (), st\<lparr>nodes := nodes st \<union> set locs\<rparr>)"
    unfolding register_all_eq assms by simp
  then show ?thesis by (simp add: register_nodes_def)
qed

theorem register_nodes_adds_witness:
  "map urlparse_netloc [''http://192.168.0.5:5000'', ''https://node3:80/chain''] =
     map Inr [''192.168.0.5:5000'', ''node3:80''] \<and>
   register_nodes (Some [''http://192.168.0.5:5000'', ''https://node3:80/chain'']) ex_init =
    (NodesAdded (nodes ex_init \<union> set [''192.168.0.5:5000'', ''node3:80'']),
     ex_init\<lparr>nodes := nodes ex_init \<union> set [''192.168.0.5:5000'', ''node3:80'']\<rparr>)"
proof -
  have h: "map urlparse_netloc [''http://192.168.0.5:5000'', ''https://node3:80/chain''] =
     map Inr [''192.168.0.5:5000'', ''node3:80'']"
    by (simp add: eval_simps)
  show ?thesis by (rule conjI [OF h register_nodes_adds [OF h]])
qed

text \<open>
  Registration is idempotent: sending the same \<^verbatim>\<open>/nodes/register\<close>
  request twice gives the same reply and the same state as sending it once,
  whatever the addresses, also when one of them raises.
\<close>

theorem register_nodes_idempotent:
  "register_nodes x (snd (register_nodes x st)) = register_nodes x st"
  by (cases x) (auto simp: register_nodes_def register_all_eq Un_assoc split: list.split)

text \<open>
  Registration is not all-or-nothing: when an address in the list raises
  (here unbalanced brackets, \<^verbatim>\<open>ValueError\<close>), the request fails with a 500
  but the addresses before it stay registered.
\<close>

theorem register_nodes_partial:
  "register_nodes (Some [''http://node2:5000'', ''http://[::1'', ''http://node3:5000'']) st =
    (ServerError ValueError, st\<lparr>nodes := insert ''node2:5000'' (nodes st)\<rparr>)"
  by (simp add: eval_simps)

end
