(* ===== verification/Concurrency.thy ===== *)
theory Concurrency
  imports Node
begin

text \<open>
  The node under Flask's threaded server (\<^verbatim>\<open>app.run\<close>, line 259, serves each
  request on its own thread since Flask 1.0). Nothing in \<^verbatim>\<open>src/blockchain.py\<close>
  takes a lock, so the statements of \<^verbatim>\<open>mine()\<close> (lines 176--188) interleave
  with other requests: a \<^verbatim>\<open>/mine\<close> thread reads the last block's proof, runs
  the search, appends the reward and seals, and between any two of these
  steps another request may run. Each statement is one atomic step here, and
  every other request is one atomic step (\<open>apply_request\<close> of \<open>Node\<close>); a
  finer interleaving only adds behaviours, so the runs shown below are runs
  of the program. The lemmas show that two overlapping \<^verbatim>\<open>/mine\<close> requests,
  or a resolution during a search, can leave an invalid chain, and that a
  transaction submitted during a search lands in the block that search seals.
\<close>

section \<open>Threads and the server state\<close>

text \<open>Where a \<^verbatim>\<open>/mine\<close> thread is: searching after a proof, holding the proof found, or after the reward.\<close>

datatype mine_thread = Searching int | Solved int | Rewarded int

record server =
  node :: blockchain
  threads :: "nat \<Rightarrow> mine_thread option"

datatype event =
    Begin nat            \<comment> \<open>\<^verbatim>\<open>last_block = blockchain.last_block\<close>, \<^verbatim>\<open>last_proof = last_block['proof']\<close>\<close>
  | Solve nat            \<comment> \<open>\<^verbatim>\<open>proof = blockchain.proof_of_work(last_proof)\<close>\<close>
  | Reward nat           \<comment> \<open>\<^verbatim>\<open>blockchain.new_transaction(sender="0", ...)\<close>\<close>
  | Seal nat pyfloat     \<comment> \<open>\<^verbatim>\<open>block = blockchain.new_block(proof)\<close> at time \<open>now\<close>\<close>
  | Serve request        \<comment> \<open>another request, served in one step\<close>

text \<open>
  One step; \<open>None\<close> when the event cannot happen (the thread is not at that
  statement) or never completes (the search does not return). A raising
  \<^verbatim>\<open>last_block\<close> ends the thread with a 500 and changes nothing.
\<close>

definition server_step :: "hasher \<Rightarrow> string \<Rightarrow> event \<Rightarrow> server \<Rightarrow> server option" where
  "server_step H nid ev s =
     (case ev of
        Begin t \<Rightarrow>
          (if threads s t \<noteq> None then None
           else case last_block (node s) of
                  Inl _ \<Rightarrow> Some s
                | Inr lb \<Rightarrow> Some (s\<lparr>threads := (threads s)(t \<mapsto> Searching (proof_val lb))\<rparr>))
      | Solve t \<Rightarrow>
          (case threads s t of
             Some (Searching lp) \<Rightarrow>
               map_option (\<lambda>p. s\<lparr>threads := (threads s)(t \<mapsto> Solved p)\<rparr>) (proof_of_work H lp)
           | _ \<Rightarrow> None)
      | Reward t \<Rightarrow>
          (case threads s t of
             Some (Solved p) \<Rightarrow>
               Some \<lparr>node = snd (new_transaction (JStr ''0'') (JStr nid) (JInt 1) (node s)),
                     threads = (threads s)(t \<mapsto> Rewarded p)\<rparr>
           | _ \<Rightarrow> None)
      | Seal t now \<Rightarrow>
          (case threads s t of
             Some (Rewarded p) \<Rightarrow>
               Some \<lparr>node = snd (new_block H now p None (node s)), threads = (threads s)(t := None)\<rparr>
           | _ \<Rightarrow> None)
      | Serve req \<Rightarrow>
          (if order_ok (node s) req
           then map_option (\<lambda>st. s\<lparr>node := st\<rparr>) (apply_request H nid req (node s))
           else None))"

fun run_events :: "hasher \<Rightarrow> string \<Rightarrow> event list \<Rightarrow> server \<Rightarrow> server option" where
  "run_events H nid [] s = Some s"
| "run_events H nid (ev # evs) s =
     (case server_step H nid ev s of None \<Rightarrow> None | Some s' \<Rightarrow> run_events H nid evs s')"

text \<open>A server with no request in flight.\<close>

definition idle :: "blockchain \<Rightarrow> server" where
  "idle st = \<lparr>node = st, threads = Map.empty\<rparr>"

text \<open>The events of one \<^verbatim>\<open>/mine\<close> request served alone.\<close>

definition mine_events :: "nat \<Rightarrow> pyfloat \<Rightarrow> event list" where
  "mine_events t now = [Begin t, Solve t, Reward t, Seal t now]"

text \<open>
  A stand-in digest under which 7 solves the puzzle after 100 but not after
  7: the text must start with 1 and end with 7.
\<close>

definition toy_sha_b :: hasher where
  "toy_sha_b s =
     (if s \<noteq> [] \<and> hd s = CHR ''1'' \<and> last s = CHR ''7'' then ''0000'' else ''ffff'') @ s"

text \<open>The block \<^verbatim>\<open>new_block(proof)\<close> builds on state \<open>st\<close>.\<close>

definition seal_block :: "hasher \<Rightarrow> pyfloat \<Rightarrow> int \<Rightarrow> blockchain \<Rightarrow> block" where
  "seal_block H now p st =
     \<lparr>index = int (length (chain st)) + 1, timestamp = now, transactions = current_transactions st,
      proof_val = p, previous_hash = hash H (block_to_json (last (chain st)))\<rparr>"

text \<open>A peer's two-block chain, valid under \<open>toy_sha_b\<close>, whose last proof is 7.\<close>

definition ex_fork :: "block list" where
  "ex_fork = [ex_genesis, \<lparr>index = 2, timestamp = ''1700000002.0'', transactions = [], proof_val = 7,
                           previous_hash = hash toy_sha_b (block_to_json ex_genesis)\<rparr>]"

declare server_step_def [eval_simps] idle_def [eval_simps] mine_events_def [eval_simps]
  toy_sha_b_def [eval_simps]

section \<open>One step at a time\<close>

lemma server_step_Begin:
  "threads s t = None \<Longrightarrow> chain (node s) \<noteq> [] \<Longrightarrow>
   server_step H nid (Begin t) s =
     Some (s\<lparr>threads := (threads s)(t \<mapsto> Searching (proof_val (last (chain (node s)))))\<rparr>)"
  by (simp add: server_step_def last_block_def)

lemma server_step_Solve:
  "threads s t = Some (Searching lp) \<Longrightarrow> proof_of_work H lp = Some p \<Longrightarrow>
   server_step H nid (Solve t) s = Some (s\<lparr>threads := (threads s)(t \<mapsto> Solved p)\<rparr>)"
  by (simp add: server_step_def)

lemma server_step_Reward:
  "threads s t = Some (Solved p) \<Longrightarrow>
   server_step H nid (Reward t) s =
     Some \<lparr>node = (node s)\<lparr>current_transactions := current_transactions (node s) @ [reward nid]\<rparr>,
           threads = (threads s)(t \<mapsto> Rewarded p)\<rparr>"
  by (simp add: server_step_def new_transaction_def reward_def Let_def)

lemma server_step_Seal:
  "threads s t = Some (Rewarded p) \<Longrightarrow> chain (node s) \<noteq> [] \<Longrightarrow>
   server_step H nid (Seal t now) s =
     Some \<lparr>node = (node s)\<lparr>current_transactions := [],
                             chain := chain (node s) @ [seal_block H now p (node s)]\<rparr>,
           threads = (threads s)(t := None)\<rparr>"
  by (simp add: server_step_def new_block_def last_block_def seal_block_def Let_def)

lemma server_step_Serve:
  "order_ok (node s) req \<Longrightarrow> apply_request H nid req (node s) = Some st' \<Longrightarrow>
   server_step H nid (Serve req) s = Some (s\<lparr>node := st'\<rparr>)"
  by (simp add: server_step_def)

lemmas server_steps = server_step_Begin server_step_Solve server_step_Reward server_step_Seal

lemma valid_chain_snoc_unlinked:
  "c \<noteq> [] \<Longrightarrow> \<not> linked H (last c) b \<Longrightarrow> valid_chain H (c @ [b]) = Inr False"
  by (simp add: valid_chain_nonempty chain_links_append)

lemma valid_chain_snoc_linked:
  "c \<noteq> [] \<Longrightarrow> linked H (last c) b \<Longrightarrow> valid_chain H (c @ [b]) = valid_chain H c"
  by (simp add: valid_chain_nonempty chain_links_append)

lemma apply_request_SubmitTx_dict:
  "chain st \<noteq> [] \<Longrightarrow>
   apply_request H nid (SubmitTx (JObj [(''sender'', x), (''recipient'', y), (''amount'', z)])) st =
     Some (st\<lparr>current_transactions :=
             current_transactions st @ [\<lparr>sender = x, recipient = y, amount = z\<rparr>]\<rparr>)"
  by (simp add: apply_request_SubmitTx new_transaction_endpoint_def py_in_def py_getitem_def
      bind_sum_def new_transaction_def last_block_def Let_def)

lemma toy_sha_b_pow: "proof_of_work toy_sha_b 100 = Some 7"
  by (simp add: proof_of_work_def pow_loop.simps valid_proof_def toy_sha_b_def eval_simps)

lemma toy_sha_b_7_7: "\<not> valid_proof toy_sha_b 7 7"
  by (simp add: valid_proof_def toy_sha_b_def eval_simps)

section \<open>Interleavings\<close>

text \<open>
  C16: two \<^verbatim>\<open>/mine\<close> requests that overlap (both read the last proof before
  either seals) find the same proof; the second block then carries the hash of
  the first but a proof that need not solve the puzzle after it, and
  \<^verbatim>\<open>valid_chain\<close> rejects the node's own chain.
\<close>

theorem concurrent_mines_break_chain:
  assumes "chain st \<noteq> []" and "proof_of_work H (proof_val (last (chain st))) = Some p"
    and "\<not> valid_proof H p p"
  shows "\<exists>s'. run_events H nid
      [Begin 1, Begin 2, Solve 1, Solve 2, Reward 1, Seal 1 now1, Reward 2, Seal 2 now2] (idle st)
        = Some s' \<and> valid_chain H (chain (node s')) = Inr False"
proof -
  have "\<exists>s' b1 b2. run_events H nid
      [Begin 1, Begin 2, Solve 1, Solve 2, Reward 1, Seal 1 now1, Reward 2, Seal 2 now2] (idle st)
        = Some s' \<and> chain (node s') = (chain st @ [b1]) @ [b2] \<and> proof_val b1 = p \<and> proof_val b2 = p"
    using assms(1,2) by (simp add: idle_def server_steps seal_block_def)
  then obtain s' b1 b2 where run: "run_events H nid
      [Begin 1, Begin 2, Solve 1, Solve 2, Reward 1, Seal 1 now1, Reward 2, Seal 2 now2] (idle st)
        = Some s'" and c: "chain (node s') = (chain st @ [b1]) @ [b2]"
    and "proof_val b1 = p" "proof_val b2 = p" by blast
  then have "\<not> linked H b1 b2" using assms(3) by (simp add: linked_def)
  then have "valid_chain H ((chain st @ [b1]) @ [b2]) = Inr False"
    by (intro valid_chain_snoc_unlinked) simp_all
  with run c show ?thesis by auto
qed

theorem concurrent_mines_break_chain_witness:
  "chain ex_init \<noteq> [] \<and> proof_of_work toy_sha_b (proof_val (last (chain ex_init))) = Some 7 \<and>
   \<not> valid_proof toy_sha_b 7 7 \<and>
   (\<exists>s'. run_events toy_sha_b ''node1''
      [Begin 1, Begin 2, Solve 1, Solve 2, Reward 1, Seal 1 ''1700000001.5'', Reward 2,
       Seal 2 ''1700000002.5''] (idle ex_init)
        = Some s' \<and> valid_chain toy_sha_b (chain (node s')) = Inr False)"
proof -
  have h1: "chain ex_init \<noteq> []" by (simp add: ex_init_eq)
  have h2: "proof_of_work toy_sha_b (proof_val (last (chain ex_init))) = Some 7"
    using toy_sha_b_pow by (simp add: ex_init_eq ex_genesis_def)
  show ?thesis using concurrent_mines_break_chain [OF h1 h2 toy_sha_b_7_7] h1 h2 toy_sha_b_7_7 by blast
qed

text \<open>
  C17: the pending list is captured when the block is sealed, not when the
  search starts: a transaction submitted while a \<^verbatim>\<open>/mine\<close> request is
  searching lands in the block that request seals, before the reward; the
  pending list is then empty and the chain stays exactly as valid as before.
\<close>

theorem transaction_during_search_sealed:
  assumes "chain st \<noteq> []" and "proof_of_work H (proof_val (last (chain st))) = Some p"
  shows "\<exists>s'. run_events H nid
      [Begin 0, Serve (SubmitTx (JObj [(''sender'', x), (''recipient'', y), (''amount'', z)])),
       Solve 0, Reward 0, Seal 0 now] (idle st) = Some s' \<and>
    transactions (last (chain (node s'))) =
      current_transactions st @ [\<lparr>sender = x, recipient = y, amount = z\<rparr>, reward nid] \<and>
    current_transactions (node s') = [] \<and> threads s' = Map.empty \<and>
    valid_chain H (chain (node s')) = valid_chain H (chain st)"
proof -
  let ?tx = "\<lparr>sender = x, recipient = y, amount = z\<rparr>"
  let ?st1 = "st\<lparr>current_transactions := current_transactions st @ [?tx, reward nid]\<rparr>"
  have run: "run_events H nid
      [Begin 0, Serve (SubmitTx (JObj [(''sender'', x), (''recipient'', y), (''amount'', z)])),
       Solve 0, Reward 0, Seal 0 now] (idle st) =
      Some \<lparr>node = ?st1\<lparr>current_transactions := [], chain := chain st @ [seal_block H now p ?st1]\<rparr>,
            threads = Map.empty\<rparr>"
    using assms by (simp add: idle_def server_steps server_step_Serve apply_request_SubmitTx_dict
        order_ok_def)
  have "linked H (last (chain st)) (seal_block H now p ?st1)"
    using proof_of_work_valid [OF assms(2)] by (simp add: linked_def seal_block_def)
  with assms(1) have "valid_chain H (chain st @ [seal_block H now p ?st1]) = valid_chain H (chain st)"
    by (rule valid_chain_snoc_linked)
  with run show ?thesis by (simp add: seal_block_def)
qed

theorem transaction_during_search_sealed_witness:
  "chain ex_init \<noteq> [] \<and> proof_of_work toy_sha (proof_val (last (chain ex_init))) = Some 7 \<and>
   (\<exists>s'. run_events toy_sha ''node1''
      [Begin 0, Serve (SubmitTx (JObj [(''sender'', JStr ''A''), (''recipient'', JStr ''B''),
                                        (''amount'', JInt 10)])),
       Solve 0, Reward 0, Seal 0 ''1700000001.5''] (idle ex_init) = Some s' \<and>
    transactions (last (chain (node s'))) =
      current_transactions ex_init @
        [\<lparr>sender = JStr ''A'', recipient = JStr ''B'', amount = JInt 10\<rparr>, reward ''node1''] \<and>
    current_transactions (node s') = [] \<and> threads s' = Map.empty \<and>
    valid_chain toy_sha (chain (node s')) = valid_chain toy_sha (chain ex_init))"
proof -
  have h1: "chain ex_init \<noteq> []" by (simp add: ex_init_eq)
  have h2: "proof_of_work toy_sha (proof_val (last (chain ex_init))) = Some 7"
    using pow_toy_100 by (simp add: ex_init_eq ex_genesis_def)
  show ?thesis using transaction_during_search_sealed [OF h1 h2] h1 h2 by blast
qed

text \<open>
  C18: a resolution that replaces the chain while a \<^verbatim>\<open>/mine\<close> request is
  searching makes that request seal its proof, found for the old last block,
  on top of the adopted chain; when the proof does not solve the puzzle after
  the adopted chain's last proof, \<^verbatim>\<open>valid_chain\<close> rejects the node's chain.
\<close>

theorem resolve_during_search_breaks_chain:
  assumes "chain st \<noteq> []" and "proof_of_work H (proof_val (last (chain st))) = Some p"
    and "order_ok st (Resolve net order)"
    and "snd (resolve_conflicts H net order st) = st\<lparr>chain := c\<rparr>" and "c \<noteq> []"
    and "\<not> valid_proof H (proof_val (last c)) p"
  shows "\<exists>s'. run_events H nid [Begin 0, Solve 0, Serve (Resolve net order), Reward 0, Seal 0 now]
      (idle st) = Some s' \<and> valid_chain H (chain (node s')) = Inr False"
proof -
  let ?st1 = "st\<lparr>chain := c, current_transactions := current_transactions st @ [reward nid]\<rparr>"
  have run: "run_events H nid [Begin 0, Solve 0, Serve (Resolve net order), Reward 0, Seal 0 now]
      (idle st) =
      Some \<lparr>node = ?st1\<lparr>current_transactions := [], chain := c @ [seal_block H now p ?st1]\<rparr>,
            threads = Map.empty\<rparr>"
    using assms(1-5) by (simp add: idle_def server_steps server_step_Serve apply_request_Resolve)
  have "\<not> linked H (last c) (seal_block H now p ?st1)"
    using assms(6) by (simp add: linked_def seal_block_def)
  with assms(5) have "valid_chain H (c @ [seal_block H now p ?st1]) = Inr False"
    by (rule valid_chain_snoc_unlinked)
  with run show ?thesis by simp
qed

lemma ex_fork_adopted:
  "snd (resolve_conflicts toy_sha_b (ex_peer 5 ex_fork) [''node2:5000''] (ex_node [ex_genesis])) =
   (ex_node [ex_genesis])\<lparr>chain := ex_fork\<rparr>"
  by (simp add: resolve_conflicts_def ex_peer_def ex_node_def ex_fork_def valid_chain_nonempty
      linked_def valid_proof_def ex_genesis_def eval_simps)

theorem resolve_during_search_breaks_chain_witness:
  "chain (ex_node [ex_genesis]) \<noteq> [] \<and>
   proof_of_work toy_sha_b (proof_val (last (chain (ex_node [ex_genesis])))) = Some 7 \<and>
   order_ok (ex_node [ex_genesis]) (Resolve (ex_peer 5 ex_fork) [''node2:5000'']) \<and>
   snd (resolve_conflicts toy_sha_b (ex_peer 5 ex_fork) [''node2:5000''] (ex_node [ex_genesis])) =
     (ex_node [ex_genesis])\<lparr>chain := ex_fork\<rparr> \<and> ex_fork \<noteq> [] \<and>
   \<not> valid_proof toy_sha_b (proof_val (last ex_fork)) 7 \<and>
   (\<exists>s'. run_events toy_sha_b ''node1''
      [Begin 0, Solve 0, Serve (Resolve (ex_peer 5 ex_fork) [''node2:5000'']), Reward 0,
       Seal 0 ''1700000003.0''] (idle (ex_node [ex_genesis])) = Some s' \<and>
    valid_chain toy_sha_b (chain (node s')) = Inr False)"
proof -
  have h1: "chain (ex_node [ex_genesis]) \<noteq> []" by (simp add: ex_node_def)
  have h2: "proof_of_work toy_sha_b (proof_val (last (chain (ex_node [ex_genesis])))) = Some 7"
    using toy_sha_b_pow by (simp add: ex_node_def ex_genesis_def)
  have h3: "order_ok (ex_node [ex_genesis]) (Resolve (ex_peer 5 ex_fork) [''node2:5000''])"
    by (simp add: order_ok_def ex_node_def)
  have h5: "ex_fork \<noteq> []" by (simp add: ex_fork_def)
  have h6: "\<not> valid_proof toy_sha_b (proof_val (last ex_fork)) 7"
    using toy_sha_b_7_7 by (simp add: ex_fork_def)
  show ?thesis
    using resolve_during_search_breaks_chain [OF h1 h2 h3 ex_fork_adopted h5 h6] h1 h2 h3 h5 h6
      ex_fork_adopted by blast
qed

end
