(* ===== verification/DecodeWf.thy ===== *)
theory DecodeWf
  imports Decode
begin

text \<open>
  What \<^verbatim>\<open>json.loads\<close> returns, as a type: every value the decoder of
  \<open>Decode\<close> produces is well-formed in the sense of \<open>Json.wf_json\<close>, the
  domain of the encoder. A float it reads is a float text (a number literal
  with a fraction or an exponent that reads back to itself, or one of the
  names \<^verbatim>\<open>NaN\<close>, \<^verbatim>\<open>Infinity\<close>, \<^verbatim>\<open>-Infinity\<close>), and a dict has distinct
  keys, since \<open>dict_set\<close> overwrites a repeated key in place. The lemmas
  re-scan each part of a number literal on its own (\<open>scan_int_reparse\<close> and
  its siblings) and follow the parser by its mutual induction (\<open>parse_wf\<close>).
\<close>

text \<open>A reply text with a float, a negative zero and a repeated key.\<close>

definition ex_text :: string where
  "ex_text = ''[1.5e3, -0, {'' @ [CHR 0x22] @ ''a'' @ [CHR 0x22] @ '': 1, '' @ [CHR 0x22] @ ''a'' @ [CHR 0x22] @ '': true}]''"

section \<open>Number literals read back\<close>
lemma digit_not_sym:
  "is_digit c \<Longrightarrow> c \<noteq> CHR ''+'' \<and> c \<noteq> CHR ''-'' \<and> c \<noteq> CHR ''.'' \<and> c \<noteq> CHR ''e'' \<and> c \<noteq> CHR ''E''"
  by (auto simp: is_digit_def)

lemma takeWhile_digit_stop:
  "takeWhile is_digit x = [] \<Longrightarrow> takeWhile is_digit (takeWhile is_digit r @ x) = takeWhile is_digit r"
  by (induction r) auto

lemma dropWhile_digit_stop:
  "takeWhile is_digit x = [] \<Longrightarrow> dropWhile is_digit (takeWhile is_digit r @ x) = x"
proof (induction r)
  case Nil
  then show ?case by (cases x) auto
next
  case (Cons a r)
  then show ?case by (cases x) auto
qed

lemma scan_exp_shape:
  assumes "scan_exp s = (e, t)" and "e \<noteq> []"
  obtains c sg d u where "e = c # sg @ d # takeWhile is_digit u" "c \<in> set ''eE''"
    "sg = [] \<or> sg = ''+'' \<or> sg = ''-''" "is_digit d"
proof -
  obtain c r where s: "s = c # r" "c \<in> set ''eE''"
    using assms by (cases s) (auto simp: scan_exp_def split: if_splits)
  obtain sg v where st: "(if take 1 r = ''+'' \<or> take 1 r = ''-'' then (take 1 r, drop 1 r) else ([], r)) = (sg, v)"
    by fastforce
  then have sg: "sg = [] \<or> sg = ''+'' \<or> sg = ''-''" by (auto split: if_splits)
  from assms s st obtain d u where "v = d # u" "is_digit d" "e = c # sg @ d # takeWhile is_digit u"
    by (cases v) (auto simp: scan_exp_def split: if_splits)
  with that s sg show ?thesis by blast
qed

lemma scan_exp_reparse:
  assumes "scan_exp s = (e, t)" and "e \<noteq> []"
  shows "scan_exp e = (e, [])"
proof -
  obtain c sg d u where e: "e = c # sg @ d # takeWhile is_digit u" "c \<in> set ''eE''"
    "sg = [] \<or> sg = ''+'' \<or> sg = ''-''" "is_digit d"
    using scan_exp_shape [OF assms] by blast
  have tw: "takeWhile is_digit (takeWhile is_digit u) = takeWhile is_digit u"
    "dropWhile is_digit (takeWhile is_digit u) = []"
    using takeWhile_digit_stop [of "[]" u] dropWhile_digit_stop [of "[]" u] by simp_all
  from e(3) show ?thesis
  proof (elim disjE)
    assume "sg = []"
    with e tw digit_not_sym [OF e(4)] show ?thesis by (simp add: scan_exp_def)
  next
    assume "sg = ''+''"
    with e tw show ?thesis by (simp add: scan_exp_def)
  next
    assume "sg = ''-''"
    with e tw show ?thesis by (simp add: scan_exp_def)
  qed
qed

lemma scan_int_shape:
  assumes "scan_int s = Some (i, t)"
  obtains sg c u where "i = sg @ c # takeWhile is_digit u" "sg = [] \<or> sg = ''-''" "is_digit c"
    "c = CHR ''0'' \<Longrightarrow> takeWhile is_digit u = []"
proof -
  obtain sg v where st: "(if take 1 s = ''-'' then (''-'', drop 1 s) else ([], s)) = (sg, v)"
    by fastforce
  then have sg: "sg = [] \<or> sg = ''-''" by (auto split: if_splits)
  from assms st obtain c u where v: "v = c # u" by (cases v) (auto simp: scan_int_def)
  show ?thesis
  proof (cases "c = CHR ''0''")
    case True
    with assms st v have i: "i = sg @ c # takeWhile is_digit []" by (simp add: scan_int_def)
    have "is_digit c" using True by (simp add: is_digit_def)
    with i sg show ?thesis by (intro that [of sg c "[]"]) simp_all
  next
    case False
    with assms st v have "i = sg @ c # takeWhile is_digit u" "is_digit c"
      by (simp_all add: scan_int_def split: if_splits)
    with that sg False show ?thesis by blast
  qed
qed

lemma scan_int_reparse:
  assumes "scan_int s = Some (i, t)" and x: "takeWhile is_digit x = []"
  shows "scan_int (i @ x) = Some (i, x)"
proof -
  obtain sg c u where i: "i = sg @ c # takeWhile is_digit u" "sg = [] \<or> sg = ''-''" "is_digit c"
    "c = CHR ''0'' \<Longrightarrow> takeWhile is_digit u = []"
    using scan_int_shape [OF assms(1)] by blast
  have "take 1 (c # takeWhile is_digit u @ x) \<noteq> ''-''" using digit_not_sym [OF i(3)] by simp
  then show ?thesis using i takeWhile_digit_stop [OF x] dropWhile_digit_stop [OF x]
    by (cases "c = CHR ''0''") (auto simp: scan_int_def dropWhile_digit_stop [OF x, of "[]", simplified])
qed

lemma scan_frac_shape:
  assumes "scan_frac s = (f, t)" and "f \<noteq> []"
  obtains d u where "f = CHR ''.'' # d # takeWhile is_digit u" "is_digit d"
  using assms by (auto simp: scan_frac_def split: list.splits if_splits)

lemma scan_frac_reparse:
  assumes "scan_frac s = (f, t)" and "f \<noteq> []" and x: "takeWhile is_digit x = []"
  shows "scan_frac (f @ x) = (f, x)"
proof -
  obtain d u where "f = CHR ''.'' # d # takeWhile is_digit u" "is_digit d"
    using scan_frac_shape [OF assms(1,2)] by blast
  then show ?thesis using takeWhile_digit_stop [OF x] dropWhile_digit_stop [OF x]
    by (simp add: scan_frac_def)
qed

lemma scan_frac_hd: "scan_frac s = (f, t) \<Longrightarrow> f \<noteq> [] \<Longrightarrow> hd f = CHR ''.''"
  by (auto elim: scan_frac_shape)

lemma scan_exp_hd: "scan_exp s = (e, t) \<Longrightarrow> e \<noteq> [] \<Longrightarrow> hd e \<in> set ''eE''"
  by (auto elim: scan_exp_shape)

lemma parse_number_float_text:
  assumes p: "parse_number s = Some (JFloat r, t)"
  shows "float_text r"
proof -
  from p obtain i r0 where i: "scan_int s = Some (i, r0)"
    by (auto simp: parse_number_def split: option.splits)
  obtain f r1 where f: "scan_frac r0 = (f, r1)" by fastforce
  obtain e r2 where e: "scan_exp r1 = (e, r2)" by fastforce
  from p i f e have fe: "\<not> (f = [] \<and> e = [])" and r: "r = i @ f @ e"
    by (auto simp: parse_number_def Let_def split: if_splits)
  have ne: "takeWhile is_digit e = []"
    using scan_exp_hd [OF e] digit_not_sym by (cases e) auto
  have nfe: "takeWhile is_digit (f @ e) = []"
  proof (cases f)
    case Nil
    with ne show ?thesis by simp
  next
    case (Cons c f')
    with scan_frac_hd [OF f] digit_not_sym show ?thesis by auto
  qed
  have sf: "scan_frac (f @ e) = (f, e)"
  proof (cases f)
    case Nil
    with fe obtain c e' where "e = c # e'" "c \<in> set ''eE''"
      using scan_exp_hd [OF e] by (cases e) auto
    with Nil show ?thesis by (auto simp: scan_frac_def split: list.splits)
  next
    case (Cons c f')
    then show ?thesis using scan_frac_reparse [OF f _ ne] by simp
  qed
  have se: "scan_exp e = (e, [])"
    using scan_exp_reparse [OF e] by (cases "e = []") (simp_all add: scan_exp_def)
  have "parse_number r = Some (JFloat r, [])"
    using scan_int_reparse [OF i nfe] sf se fe by (simp add: r parse_number_def)
  then show ?thesis by (simp add: float_text_def)
qed

section \<open>Every decoded value is well-formed\<close>

lemma parse_number_wf:
  assumes p: "parse_number s = Some (j, t)"
  shows "wf_json j"
proof -
  have "(\<exists>n. j = JInt n) \<or> (\<exists>r. j = JFloat r)"
    using p by (auto simp: parse_number_def Let_def split: option.splits prod.splits if_splits)
  then show ?thesis using parse_number_float_text p by auto
qed

lemma parse_scalar_wf: "parse_scalar s = Some (j, t) \<Longrightarrow> wf_json j"
  by (auto simp: parse_scalar_def float_text_def split: if_splits dest: parse_number_wf)

lemma dict_set_keys: "fst ` set (dict_set acc k v) = insert k (fst ` set acc)"
  by (induction acc k v rule: dict_set.induct) (auto split: if_split)

lemma dict_set_wf:
  "wf_json (JObj acc) \<Longrightarrow> wf_json v \<Longrightarrow> wf_json (JObj (dict_set acc k v))"
  by (induction acc) (auto simp: dict_set_keys)

lemma parse_wf:
  "parse_value n s = Some (j, r) \<Longrightarrow> wf_json j"
  "parse_array n acc s = Some (j, r) \<Longrightarrow> list_all wf_json acc \<Longrightarrow> wf_json j"
  "parse_members n kvs s = Some (j, r) \<Longrightarrow> wf_json (JObj kvs) \<Longrightarrow> wf_json j"
  "parse_object n kvs s = Some (j, r) \<Longrightarrow> wf_json (JObj kvs) \<Longrightarrow> wf_json j"
proof (induction n s and n acc s and n kvs s and n kvs s arbitrary: j r and j r and j r and j r
    rule: parse_value_parse_array_parse_members_parse_object.induct)
  case (2 n s)
  then show ?case
    by (auto split: list.splits if_splits option.splits dest: parse_scalar_wf)
next
  case (4 n acc s)
  then show ?case by (auto split: list.splits if_splits option.splits)
next
  case (6 n kvs s)
  from "6.prems"(1) obtain x k b1 r2 v r3 where sw: "skip_ws s = CHR 0x22 # x"
    and ps: "parse_string x = Some (k, b1)" and sb: "skip_ws b1 = CHR '':'' # r2"
    and pv: "parse_value n r2 = Some (v, r3)" and po: "parse_object n (dict_set kvs k v) r3 = Some (j, r)"
    by (auto split: list.splits if_splits option.splits)
  have "wf_json v" using "6.IH"(1) sw ps sb pv by blast
  with "6.prems"(2) have "wf_json (JObj (dict_set kvs k v))" by (rule dict_set_wf)
  then show ?case using "6.IH"(2) sw ps sb pv po by blast
next
  case (8 n kvs s)
  then show ?case by (auto split: list.splits if_splits)
qed simp_all

lemma loads_parse: "loads s = Some j \<Longrightarrow> \<exists>r. parse_value (Suc (length s)) s = Some (j, r)"
  by (auto simp: loads_def simp del: parse_value.simps split: option.splits if_splits)

text \<open>
  Every value \<^verbatim>\<open>json.loads\<close> returns is well-formed: its floats are
  float texts and its dicts have distinct keys (a repeated key in the text keeps
  one entry, with the last value).
\<close>

theorem loads_wf:
  assumes "loads s = Some j"
  shows "wf_json j"
  using loads_parse [OF assms] parse_wf(1) by blast

theorem loads_wf_witness:
  "loads ex_text = Some (JList [JFloat ''1.5e3'', JInt 0, JObj [(''a'', JBool True)]]) \<and>
   wf_json (JList [JFloat ''1.5e3'', JInt 0, JObj [(''a'', JBool True)]])"
proof -
  have l: "loads ex_text = Some (JList [JFloat ''1.5e3'', JInt 0, JObj [(''a'', JBool True)]])"
    by code_simp
  show ?thesis using l loads_wf [OF l] by blast
qed

end
