(* ===== verification/Wire.thy ===== *)
theory Wire
  imports Node DecodeWf
begin

text \<open>
  The wire between two nodes: what \<^verbatim>\<open>GET /chain\<close> sends (\<^verbatim>\<open>full_chain\<close>,
  \<^verbatim>\<open>src/blockchain.py\<close> lines 213--219, through Flask's \<^verbatim>\<open>jsonify\<close>) and what
  the resolver reads from it (\<^verbatim>\<open>response.json()['length']\<close> and
  \<^verbatim>\<open>response.json()['chain']\<close>, lines 68--69). Flask prints the body with
  \<^verbatim>\<open>json.dumps(obj, sort_keys=True, separators=(',', ':'))\<close> and a final
  newline. The decoded chain is a list of dicts; \<open>block_of_json\<close> reads such a
  dict as the record \<open>block\<close> when it has exactly the five keys with values of
  the record's types (and likewise a transaction), which is the domain the
  typed model covers. The lemmas show the round trip of the specification:
  the chain a node serves decodes, on the other side, to the same blocks up to
  the order of the items inside transaction values, and \<^verbatim>\<open>valid_chain\<close>
  gives the same result on both.
\<close>

section \<open>Sending\<close>

definition jsonify :: "json \<Rightarrow> string" where
  "jsonify j = dumps_with '','' '':'' j @ [CHR 0x0A]"

text \<open>The body of \<^verbatim>\<open>full_chain\<close>: \<^verbatim>\<open>{'chain': blockchain.chain, 'length': len(blockchain.chain)}\<close>.\<close>

definition chain_body :: "block list \<Rightarrow> json" where
  "chain_body c = JObj [(''chain'', JList (map block_to_json c)), (''length'', JInt (int (length c)))]"

section \<open>Receiving\<close>

text \<open>
  \<^verbatim>\<open>response.json()\<close> raises \<^verbatim>\<open>JSONDecodeError\<close> (a \<^verbatim>\<open>ValueError\<close>) on
  text that is not JSON; the two subscripts raise as \<open>py_getitem\<close> does.
\<close>

definition response_json :: "string \<Rightarrow> py_error + json" where
  "response_json text = (case loads text of None \<Rightarrow> Inl ValueError | Some j \<Rightarrow> Inr j)"

definition peer_reply :: "string \<Rightarrow> py_error + json \<times> json" where
  "peer_reply text =
     bind_sum (response_json text) (\<lambda>j.
     bind_sum (py_getitem j ''length'') (\<lambda>l.
     bind_sum (response_json text) (\<lambda>j'.
     bind_sum (py_getitem j' ''chain'') (\<lambda>c. Inr (l, c)))))"

text \<open>A decoded transaction dict, and a decoded block dict, as records.\<close>

definition tx_of_json :: "json \<Rightarrow> transaction option" where
  "tx_of_json j =
     (case j of
        JObj kvs \<Rightarrow>
          if sort (map fst kvs) = [''amount'', ''recipient'', ''sender''] then
            Some \<lparr>sender = the (map_of kvs ''sender''), recipient = the (map_of kvs ''recipient''),
                  amount = the (map_of kvs ''amount'')\<rparr>
          else None
      | _ \<Rightarrow> None)"

definition block_of_json :: "json \<Rightarrow> block option" where
  "block_of_json j =
     (case j of
        JObj kvs \<Rightarrow>
          if sort (map fst kvs) = [''index'', ''previous_hash'', ''proof'', ''timestamp'', ''transactions'']
          then
            (case (map_of kvs ''index'', map_of kvs ''timestamp'', map_of kvs ''transactions'',
                   map_of kvs ''proof'', map_of kvs ''previous_hash'') of
               (Some (JInt i), Some (JFloat r), Some (JList ts), Some (JInt p), Some (JStr h)) \<Rightarrow>
                 map_option (\<lambda>txs. \<lparr>index = i, timestamp = r, transactions = txs, proof_val = p,
                                    previous_hash = h\<rparr>)
                   (those (map tx_of_json ts))
             | _ \<Rightarrow> None)
          else None
      | _ \<Rightarrow> None)"

text \<open>The reported length and chain of a reply, when they fit the typed model.\<close>

definition decode_chain :: "string \<Rightarrow> (int \<times> block list) option" where
  "decode_chain text =
     (case peer_reply text of
        Inr (JInt n, JList xs) \<Rightarrow> map_option (\<lambda>bs. (n, bs)) (those (map block_of_json xs))
      | _ \<Rightarrow> None)"

text \<open>A block as it arrives: the values inside its transactions in canonical form.\<close>

definition canon_tx :: "transaction \<Rightarrow> transaction" where
  "canon_tx t = \<lparr>sender = canon (sender t), recipient = canon (recipient t), amount = canon (amount t)\<rparr>"

definition canon_block :: "block \<Rightarrow> block" where
  "canon_block b =
     \<lparr>index = index b, timestamp = timestamp b, transactions = map canon_tx (transactions b),
      proof_val = proof_val b, previous_hash = previous_hash b\<rparr>"

declare jsonify_def [eval_simps] chain_body_def [eval_simps] response_json_def [eval_simps]
  peer_reply_def [eval_simps] tx_of_json_def [eval_simps] block_of_json_def [eval_simps]
  decode_chain_def [eval_simps] canon_tx_def [eval_simps] canon_block_def [eval_simps]

section \<open>Lemmas\<close>

lemma loads_jsonify: "wf_json j \<Longrightarrow> loads (jsonify j) = Some (canon j)"
proof -
  assume w: "wf_json j"
  have sep: "json_seps '','' '':''" by (simp add: json_seps_def)
  have "parse_value (Suc (length (jsonify j))) (dumps_with '','' '':'' j @ [CHR 0x0A]) = Some (canon j, [CHR 0x0A])"
    using reads_back_all [OF sep w] by (simp add: reads_back_def delim_def is_ws_def jsonify_def)
  then show ?thesis by (simp add: loads_def jsonify_def skip_ws_def is_ws_def)
qed

lemma those_tx_of_json:
  "those (map (\<lambda>t. tx_of_json (canon (tx_to_json t))) ts) = Some (map canon_tx ts)"
  by (induction ts) (simp_all add: tx_of_json_def tx_to_json_def canon_tx_def)

lemma canon_block_to_json:
  "canon (block_to_json b) = JObj [(''index'', JInt (index b)), (''previous_hash'', JStr (previous_hash b)),
     (''proof'', JInt (proof_val b)), (''timestamp'', JFloat (timestamp b)),
     (''transactions'', JList (map (canon \<circ> tx_to_json) (transactions b)))]"
  by (simp add: block_to_json_def block_fields_def)

lemma block_of_json_canon: "block_of_json (canon (block_to_json b)) = Some (canon_block b)"
  by (simp add: canon_block_to_json block_of_json_def comp_def those_tx_of_json canon_block_def)

lemma hash_canon_block: "hash H (block_to_json (canon_block b)) = hash H (block_to_json b)"
proof (rule hash_canon)
  have "map (canon \<circ> tx_to_json \<circ> canon_tx) ts = map (canon \<circ> tx_to_json) ts" for ts
    by (simp add: tx_to_json_def canon_tx_def)
  then show "canon (block_to_json (canon_block b)) = canon (block_to_json b)"
    by (simp add: canon_block_to_json canon_block_def)
qed

lemma canon_block_fields [simp]:
  "previous_hash (canon_block b) = previous_hash b" "proof_val (canon_block b) = proof_val b"
  by (simp_all add: canon_block_def)

lemma chain_links_canon: "chain_links H (map canon_block c) = chain_links H c"
  by (induction H c rule: chain_links.induct)
     (simp_all add: linked_def hash_canon_block)

lemma valid_chain_canon: "valid_chain H (map canon_block c) = valid_chain H c"
  by (simp add: valid_chain_spec chain_links_canon)

lemma those_block_of_json:
  "those (map (\<lambda>b. block_of_json (canon (block_to_json b))) c) = Some (map canon_block c)"
  by (induction c) (simp_all add: block_of_json_canon)

text \<open>What the resolver reads from a chain served by \<^verbatim>\<open>full_chain\<close>.\<close>

lemma peer_reply_chain_body:
  assumes "list_all wf_block c"
  shows "peer_reply (jsonify (chain_body c)) =
    Inr (JInt (int (length c)), JList (map (\<lambda>b. canon (block_to_json b)) c))"
proof -
  have "wf_json (chain_body c)" using assms by (simp add: chain_body_def list_all_iff)
  then have "loads (jsonify (chain_body c)) = Some (canon (chain_body c))" by (rule loads_jsonify)
  moreover have "canon (chain_body c) =
      JObj [(''chain'', JList (map (\<lambda>b. canon (block_to_json b)) c)), (''length'', JInt (int (length c)))]"
    by (simp add: chain_body_def comp_def)
  ultimately show ?thesis by (simp add: peer_reply_def response_json_def py_getitem_def bind_sum_def)
qed

section \<open>The round trip of a chain\<close>

text \<open>
  C19: the chain a node serves on \<^verbatim>\<open>GET /chain\<close>, sent through
  \<^verbatim>\<open>jsonify\<close> and read back with \<^verbatim>\<open>response.json()\<close> by a resolving peer,
  arrives with its true length and the same blocks (the items inside
  transaction values in key order), and \<^verbatim>\<open>valid_chain\<close> gives the same result
  on the chain received as on the chain sent.
\<close>

theorem wire_chain_roundtrip:
  assumes "list_all wf_block c"
  shows "decode_chain (jsonify (chain_body c)) = Some (int (length c), map canon_block c) \<and>
         valid_chain H (map canon_block c) = valid_chain H c"
  using peer_reply_chain_body [OF assms]
  by (simp add: decode_chain_def comp_def those_block_of_json valid_chain_canon)

theorem wire_chain_roundtrip_witness:
  "list_all wf_block (ex_chain 1) \<and>
   decode_chain (jsonify (chain_body (ex_chain 1))) =
     Some (int (length (ex_chain 1)), map canon_block (ex_chain 1)) \<and>
   valid_chain toy_sha (map canon_block (ex_chain 1)) = valid_chain toy_sha (ex_chain 1)"
proof -
  have h: "list_all wf_block (ex_chain 1)"
    by (simp add: ex_genesis_def ex_next_def wf_block_def eval_simps)
  show ?thesis using h wire_chain_roundtrip [OF h] by blast
qed

text \<open>
  A value decoded from any reply text, for instance a chain adopted from a
  peer, is served again by \<^verbatim>\<open>jsonify\<close> as text that decodes to the same
  value with its dicts in key order: decoding, printing and decoding again
  loses nothing but the order of a dict's items.
\<close>

theorem loads_jsonify_reserve:
  assumes "loads s = Some j"
  shows "loads (jsonify j) = Some (canon j)"
proof -
  have "wf_json j" using loads_parse [OF assms] parse_wf(1) by blast
  then show ?thesis by (rule loads_jsonify)
qed

theorem loads_jsonify_reserve_witness:
  "loads ex_text = Some (JList [JFloat ''1.5e3'', JInt 0, JObj [(''a'', JBool True)]]) \<and>
   loads (jsonify (JList [JFloat ''1.5e3'', JInt 0, JObj [(''a'', JBool True)]])) =
     Some (canon (JList [JFloat ''1.5e3'', JInt 0, JObj [(''a'', JBool True)]]))"
proof -
  have l: "loads ex_text = Some (JList [JFloat ''1.5e3'', JInt 0, JObj [(''a'', JBool True)]])"
    by code_simp
  show ?thesis using l loads_jsonify_reserve [OF l] by blast
qed

end
