(* ===== verification/Tamper.thy ===== *)
theory Tamper
  imports Wire
begin

text \<open>
  Tamper evidence of the chain (\<^verbatim>\<open>src/blockchain.py\<close>, \<^verbatim>\<open>hash\<close> lines
  124--131 and \<^verbatim>\<open>valid_chain\<close> lines 27--51). A block's digest covers all of
  its fields through the JSON text, and the next block stores that digest, so a
  change to a block that has a successor breaks a link whenever the digest
  separates the two texts. The model makes that assumption explicit: the
  digest \<open>H\<close> is injective (SHA-256 is assumed collision-resistant, which no
  proof can supply), and the encoder is injective up to the order of dict
  items by the round trip of \<open>Decode\<close>. The last block has no successor: only
  its own link and proof are checked, and its transactions are not.
\<close>

section \<open>Lemmas\<close>

lemma chain_links_nth:
  "chain_links H c \<Longrightarrow> Suc i < length c \<Longrightarrow> linked H (c ! i) (c ! Suc i)"
proof (induction H c arbitrary: i rule: chain_links.induct)
  case (1 H a b rest)
  then show ?case by (cases i) auto
qed auto

text \<open>Blocks the hashing text cannot tell apart have the same canonical form.\<close>

lemma block_dumps_inj:
  assumes "wf_block a" and "wf_block b"
    and "dumps (block_to_json a) = dumps (block_to_json b)"
  shows "canon (block_to_json a) = canon (block_to_json b)"
proof (rule dumps_with_canon_inj)
  show "json_seps '', '' '': ''" by (simp add: json_seps_def is_ws_def)
qed (use assms in simp_all)

lemma toy_sha_inj: "inj toy_sha"
proof (rule inj_on_inverseI)
  show "drop 4 (toy_sha s) = s" for s by (simp add: toy_sha_def)
qed

section \<open>Tamper evidence\<close>

text \<open>
  C20: under a collision-free digest, replacing a block of a chain that
  \<^verbatim>\<open>valid_chain\<close> accepts by a block with different contents (any field: index,
  timestamp, transactions, proof or previous hash, up to the order of items
  inside transaction values), at a position that has a successor, makes
  \<^verbatim>\<open>valid_chain\<close> reject the chain.
\<close>

theorem tamper_detected:
  assumes "inj H" and "valid_chain H c = Inr True" and "Suc i < length c"
    and "wf_block b" and "wf_block (c ! i)"
    and "canon (block_to_json b) \<noteq> canon (block_to_json (c ! i))"
  shows "valid_chain H (c[i := b]) = Inr False"
proof -
  have links: "chain_links H c" using assms(2) by (simp add: valid_chain_True)
  have "\<not> chain_links H (c[i := b])"
  proof
    assume l: "chain_links H (c[i := b])"
    have "Suc i < length (c[i := b])" using assms(3) by simp
    from chain_links_nth [OF l this] have "linked H (c[i := b] ! i) (c[i := b] ! Suc i)" .
    then have "linked H b (c ! Suc i)" using assms(3) by simp
    moreover from chain_links_nth [OF links assms(3)] have "linked H (c ! i) (c ! Suc i)" .
    ultimately have "H (dumps (block_to_json b)) = H (dumps (block_to_json (c ! i)))"
      by (simp add: linked_def hash_def)
    with assms(1) have "dumps (block_to_json b) = dumps (block_to_json (c ! i))"
      by (simp add: inj_eq)
    with block_dumps_inj assms(4,5,6) show False by blast
  qed
  moreover have "c[i := b] \<noteq> []" using assms(3) by (simp flip: length_greater_0_conv)
  ultimately show ?thesis by (simp add: valid_chain_nonempty)
qed

theorem tamper_detected_witness:
  "inj toy_sha \<and> valid_chain toy_sha (ex_chain 2) = Inr True \<and> Suc 1 < length (ex_chain 2) \<and>
   wf_block ((ex_chain 2 ! 1)\<lparr>proof_val := 8\<rparr>) \<and> wf_block (ex_chain 2 ! 1) \<and>
   canon (block_to_json ((ex_chain 2 ! 1)\<lparr>proof_val := 8\<rparr>)) \<noteq> canon (block_to_json (ex_chain 2 ! 1)) \<and>
   valid_chain toy_sha ((ex_chain 2)[1 := (ex_chain 2 ! 1)\<lparr>proof_val := 8\<rparr>]) = Inr False"
proof -
  have v: "valid_chain toy_sha (ex_chain 2) = Inr True"
    using ex_chain_links [of 2] by (simp add: valid_chain_True)
  have l: "Suc 1 < length (ex_chain 2)" by simp
  have b1: "ex_chain 2 ! Suc 0 = ex_next ex_genesis" by (simp add: numeral_2_eq_2 nth_append)
  have w1: "wf_block ((ex_chain 2 ! 1)\<lparr>proof_val := 8\<rparr>)" "wf_block (ex_chain 2 ! 1)"
    by (simp_all add: b1 ex_next_def wf_block_def eval_simps)
  have d: "canon (block_to_json ((ex_chain 2 ! 1)\<lparr>proof_val := 8\<rparr>)) \<noteq> canon (block_to_json (ex_chain 2 ! 1))"
    by (simp add: canon_block_to_json b1 ex_next_def)
  show ?thesis using tamper_detected [OF toy_sha_inj v l w1 d] toy_sha_inj v l w1 d by blast
qed

text \<open>
  C21: the contents of the last block are not protected: replacing its
  transactions leaves \<^verbatim>\<open>valid_chain\<close> accepting the chain, since no later block
  stores its digest.
\<close>

theorem last_block_transactions_unchecked:
  assumes "valid_chain H c = Inr True"
  shows "valid_chain H (butlast c @ [(last c)\<lparr>transactions := ts\<rparr>]) = Inr True"
proof -
  from assms have ne: "c \<noteq> []" and links: "chain_links H c"
    by (simp_all add: valid_chain_True)
  from ne obtain xs x where c: "c = xs @ [x]" by (cases c rule: rev_cases) auto
  with links have "chain_links H (xs @ [x\<lparr>transactions := ts\<rparr>])"
    by (simp add: chain_links_append linked_def)
  with c have "chain_links H (butlast c @ [(last c)\<lparr>transactions := ts\<rparr>])" by simp
  then show ?thesis by (simp add: valid_chain_True)
qed

theorem last_block_transactions_unchecked_witness:
  "valid_chain toy_sha (ex_chain 1) = Inr True \<and>
   valid_chain toy_sha (butlast (ex_chain 1) @ [(last (ex_chain 1))\<lparr>transactions := [reward ''mallory'']\<rparr>])
     = Inr True"
proof -
  have v: "valid_chain toy_sha (ex_chain 1) = Inr True"
    using ex_chain_links [of 1] by (simp add: valid_chain_True)
  show ?thesis using v last_block_transactions_unchecked [OF v] by blast
qed

end
