(* ===== verification/Requests.thy ===== *)
theory Requests
  imports Wire
begin

text \<open>
  The two routes that read a request body, from the text the client sends
  (\<^verbatim>\<open>src/blockchain.py\<close>, \<^verbatim>\<open>new_transaction\<close> lines 200--210 and
  \<^verbatim>\<open>register_nodes\<close> lines 222--237). Flask's \<^verbatim>\<open>request.get_json()\<close>
  parses the body with \<^verbatim>\<open>json.loads\<close>, modelled by \<open>Decode.loads\<close>, and
  answers 400 Bad Request itself when the body is not JSON; the request is
  taken to carry the JSON content type. The registration route then runs
  \<^verbatim>\<open>values.get('nodes')\<close>, iterates whatever value it gets, and calls
  \<^verbatim>\<open>register_node\<close> on each element, so a body of any JSON shape reaches
  Python operations the list-typed model of \<open>Node\<close> leaves out: \<^verbatim>\<open>.get\<close> on a
  value that is not a dict, iteration over a string or a dict, and
  \<^verbatim>\<open>urlparse\<close> on an element that is not a string. The lemmas relate these
  handlers to the ones of \<open>Node\<close>, which they refine on the bodies that model
  covers.
\<close>

section \<open>Python operations on the body\<close>

text \<open>
  \<^verbatim>\<open>values.get(k)\<close>: the value of the key in a dict, \<^verbatim>\<open>None\<close> (here \<open>JNull\<close>,
  as a JSON \<^verbatim>\<open>null\<close> also decodes to \<^verbatim>\<open>None\<close>) when it is missing, and
  \<^verbatim>\<open>AttributeError\<close> on a list, a string, a number, a boolean or \<^verbatim>\<open>None\<close>.
\<close>

definition py_get :: "json \<Rightarrow> string \<Rightarrow> py_error + json" where
  "py_get v k =
     (case v of
        JObj kvs \<Rightarrow> Inr (case map_of (rev kvs) k of None \<Rightarrow> JNull | Some x \<Rightarrow> x)
      | _ \<Rightarrow> Inl AttributeError)"

text \<open>
  \<^verbatim>\<open>for x in v\<close>: the elements of a list, the one-character strings of a
  string, the keys of a dict (each once, at its first position), and
  \<^verbatim>\<open>TypeError\<close> (not iterable) for numbers and booleans.
\<close>

definition py_iter :: "json \<Rightarrow> py_error + json list" where
  "py_iter v =
     (case v of
        JList xs \<Rightarrow> Inr xs
      | JStr s \<Rightarrow> Inr (map (\<lambda>c. JStr [c]) s)
      | JObj kvs \<Rightarrow> Inr (map JStr (remdups (map fst kvs)))
      | _ \<Rightarrow> Inl TypeError)"

text \<open>
  Python's truth value of a decoded value. A float is false when
  \<^verbatim>\<open>float()\<close> of its text is zero: when every digit before the exponent is
  \<^verbatim>\<open>0\<close>, or when the decimal value \<open>M * 10^e\<close> is at most \<open>2^-1075\<close>, half the
  least subnormal double, so that round-to-nearest-even gives \<open>0.0\<close>
  (\<^verbatim>\<open>1e-400\<close>). The value has \<open>length ds + e\<close> digits before the point: below
  \<open>-323\<close> it is under \<open>10^-324\<close>, above it at least \<open>10^-323\<close>, and at \<open>-323\<close>
  the two integers \<open>M * 2^1075\<close> and \<open>10^-e\<close> are compared.
\<close>

definition float_nonzero :: "pyfloat \<Rightarrow> bool" where
  "float_nonzero r \<longleftrightarrow>
     r \<in> {''NaN'', ''Infinity'', ''-Infinity''} \<or>
     (let m = takeWhile (\<lambda>c. c \<notin> set ''eE'') r;
          ds = dropWhile (\<lambda>c. c = CHR ''0'') (filter is_digit m);
          ex = drop 1 (dropWhile (\<lambda>c. c \<notin> set ''eE'') r);
          e = int_of_str (if take 1 ex = ''+'' then drop 1 ex else ex)
              - int (length (filter is_digit (dropWhile (\<lambda>c. c \<noteq> CHR ''.'') m)));
          top = int (length ds) + e
      in ds \<noteq> [] \<and>
         (- 323 < top \<or>
          (top = - 323 \<and> 10 ^ nat (- e) < foldl (\<lambda>a c. 10 * a + of_char c - 48) (0::int) ds * 2 ^ 1075)))"

fun py_truthy :: "json \<Rightarrow> bool" where
  "py_truthy JNull = False"
| "py_truthy (JBool b) = b"
| "py_truthy (JInt n) = (n \<noteq> 0)"
| "py_truthy (JFloat r) = float_nonzero r"
| "py_truthy (JStr s) = (s \<noteq> [])"
| "py_truthy (JList xs) = (xs \<noteq> [])"
| "py_truthy (JObj kvs) = (kvs \<noteq> [])"

text \<open>
  \<^verbatim>\<open>blockchain.register_node(node)\<close> on one element of the iteration. A
  string goes to \<open>Registry.register_node\<close>. On any other value
  \<^verbatim>\<open>urlparse\<close> first coerces its argument as bytes
  (\<^verbatim>\<open>urllib.parse._coerce_args\<close>): a true value has no \<^verbatim>\<open>decode\<close> method and
  raises \<^verbatim>\<open>AttributeError\<close>; a false one is read as \<^verbatim>\<open>b''\<close> and the set
  receives the bytes object \<^verbatim>\<open>b''\<close>, which the model's set of strings
  cannot hold: that case is \<open>None\<close>, outside the model.
\<close>

definition register_value :: "json \<Rightarrow> blockchain \<Rightarrow> ((py_error + unit) \<times> blockchain) option" where
  "register_value v st =
     (case v of
        JStr a \<Rightarrow> Some (register_node a st)
      | _ \<Rightarrow> if py_truthy v then Some (Inl AttributeError, st) else None)"

text \<open>The loop \<^verbatim>\<open>for node in nodes\<close>: an exception ends it.\<close>

fun register_values :: "json list \<Rightarrow> blockchain \<Rightarrow> ((py_error + unit) \<times> blockchain) option" where
  "register_values [] st = Some (Inr (), st)"
| "register_values (v # vs) st =
     (case register_value v st of
        None \<Rightarrow> None
      | Some (Inl e, st') \<Rightarrow> Some (Inl e, st')
      | Some (Inr _, st') \<Rightarrow> register_values vs st')"

section \<open>The handlers on a decoded body\<close>

text \<open>The loop over the iterated value and the reply with \<^verbatim>\<open>list(blockchain.nodes)\<close>.\<close>

definition register_loop :: "json list \<Rightarrow> blockchain \<Rightarrow> (reply \<times> blockchain) option" where
  "register_loop vs st =
     map_option (\<lambda>(res, st'). (case res of Inl e \<Rightarrow> ServerError e | Inr _ \<Rightarrow> NodesAdded (nodes st'), st'))
       (register_values vs st)"

definition register_nodes_body :: "json \<Rightarrow> blockchain \<Rightarrow> (reply \<times> blockchain) option" where
  "register_nodes_body values st =
     (case py_get values ''nodes'' of
        Inl e \<Rightarrow> Some (ServerError e, st)
      | Inr JNull \<Rightarrow> Some (NodesMissing, st)
      | Inr ns \<Rightarrow>
          (case py_iter ns of
             Inl e \<Rightarrow> Some (ServerError e, st)
           | Inr vs \<Rightarrow> register_loop vs st))"

section \<open>The handlers on the request text\<close>

text \<open>What the client receives: a handler's reply, or Flask's 400 for a body that is not JSON.\<close>

datatype http_reply = Reply reply | BadRequest

definition post_register :: "string \<Rightarrow> blockchain \<Rightarrow> (http_reply \<times> blockchain) option" where
  "post_register body st =
     (case loads body of
        None \<Rightarrow> Some (BadRequest, st)
      | Some values \<Rightarrow> map_option (apfst Reply) (register_nodes_body values st))"

definition post_transaction :: "string \<Rightarrow> blockchain \<Rightarrow> http_reply \<times> blockchain" where
  "post_transaction body st =
     (case loads body of
        None \<Rightarrow> (BadRequest, st)
      | Some values \<Rightarrow> apfst Reply (new_transaction_endpoint values st))"

text \<open>The status code of each reply, as the routes return it (500 for an escaped exception).\<close>

fun http_status :: "http_reply \<Rightarrow> nat" where
  "http_status BadRequest = 400"
| "http_status (Reply (Forged _ _ _ _)) = 200"
| "http_status (Reply (TxAdded _)) = 201"
| "http_status (Reply MissingValues) = 400"
| "http_status (Reply (FullChain _ _)) = 200"
| "http_status (Reply NodesMissing) = 400"
| "http_status (Reply (NodesAdded _)) = 201"
| "http_status (Reply (Replaced _)) = 200"
| "http_status (Reply (Authoritative _)) = 200"
| "http_status (Reply (ServerError _)) = 500"

declare py_get_def [eval_simps] py_iter_def [eval_simps] float_nonzero_def [eval_simps]
  register_value_def [eval_simps] register_loop_def [eval_simps] register_nodes_body_def [eval_simps] post_register_def [eval_simps]
  post_transaction_def [eval_simps]

text \<open>
  The node as its HTTP clients drive it: one request per route, the bodies
  as text (\<^verbatim>\<open>@app.route\<close> at lines 174, 200, 213, 222 and 240), and the
  states reachable from the constructor through served requests, a
  resolution visiting every registered peer once.
\<close>

datatype http_request =
    HMine pyfloat
  | HPostTransaction string
  | HGetChain
  | HPostNodes string
  | HResolve network "string list"

definition serve :: "hasher \<Rightarrow> string \<Rightarrow> http_request \<Rightarrow> blockchain \<Rightarrow> (http_reply \<times> blockchain) option" where
  "serve H nid req st =
     (case req of
        HMine now \<Rightarrow> map_option (apfst Reply) (mine_endpoint H nid now st)
      | HPostTransaction body \<Rightarrow> Some (post_transaction body st)
      | HGetChain \<Rightarrow> Some (apfst Reply (full_chain st))
      | HPostNodes body \<Rightarrow> post_register body st
      | HResolve net order \<Rightarrow> Some (apfst Reply (consensus H net order st)))"

inductive served :: "hasher \<Rightarrow> string \<Rightarrow> blockchain \<Rightarrow> bool"
  for H :: hasher and nid :: string
where
  start: "served H nid (init_blockchain H now)"
| step: "served H nid st \<Longrightarrow>
         (\<forall>net order. req = HResolve net order \<longrightarrow> set order = nodes st \<and> distinct order) \<Longrightarrow>
         serve H nid req st = Some (r, st') \<Longrightarrow> served H nid st'"

text \<open>A node with no blocks, no pending transactions and no peers, for the examples.\<close>

abbreviation ex_empty_node :: blockchain where
  "ex_empty_node \<equiv> \<lparr>chain = [], current_transactions = [], nodes = {}\<rparr>"

section \<open>Lemmas\<close>

lemma register_values_strings: "register_values (map JStr as) st = Some (register_all as st)"
  by (induction as arbitrary: st) (simp_all add: register_value_def split: prod.split sum.split)

lemma register_node_only_nodes:
  "register_node a st = (res, st') \<Longrightarrow> chain st' = chain st \<and> current_transactions st' = current_transactions st"
  by (auto simp: register_node_def split: sum.splits)

lemma register_values_only_nodes:
  "register_values vs st = Some (res, st') \<Longrightarrow>
   chain st' = chain st \<and> current_transactions st' = current_transactions st"
proof (induction vs arbitrary: st)
  case (Cons v vs)
  then show ?case
    by (fastforce simp: register_value_def dest: register_node_only_nodes
        split: json.splits if_splits option.splits prod.splits sum.splits)
qed simp

lemma register_loop_cases:
  assumes "register_loop vs st = Some (r, st')"
  obtains res where "register_values vs st = Some (res, st')"
    and "r = NodesAdded (nodes st') \<or> (\<exists>e. r = ServerError e)"
proof -
  from assms obtain res where rv: "register_values vs st = Some (res, st')"
    and r: "r = (case res of Inl e \<Rightarrow> ServerError e | Inr _ \<Rightarrow> NodesAdded (nodes st'))"
    by (auto simp: register_loop_def)
  from r have "r = NodesAdded (nodes st') \<or> (\<exists>e. r = ServerError e)" by (cases res) auto
  with rv that show ?thesis by blast
qed

lemma register_nodes_body_only_nodes:
  "register_nodes_body values st = Some (r, st') \<Longrightarrow>
   chain st' = chain st \<and> current_transactions st' = current_transactions st"
  by (auto simp: register_nodes_body_def elim!: register_loop_cases dest!: register_values_only_nodes
      split: sum.splits json.splits)

lemma register_nodes_body_400:
  "register_nodes_body values st = Some (r, st') \<Longrightarrow> http_status (Reply r) = 400 \<Longrightarrow> st' = st"
  by (auto simp: register_nodes_body_def elim!: register_loop_cases split: sum.splits json.splits)

lemma new_transaction_endpoint_400:
  "new_transaction_endpoint v st = (r, st') \<Longrightarrow> http_status (Reply r) = 400 \<Longrightarrow> st' = st"
  by (auto simp: new_transaction_endpoint_def split: sum.splits bool.splits prod.splits)

lemma register_node_char:
  assumes "printable [c]"
  shows "register_node [c] st = (Inr (), st\<lparr>nodes := insert [] (nodes st)\<rparr>)"
proof -
  have "\<not> sublist ''//'' [c]" by (simp add: sublist_Cons_right)
  with assms show ?thesis using urlparse_netloc_no_slashes by (simp add: register_node_def)
qed

lemma register_values_chars:
  "printable s \<Longrightarrow> s \<noteq> [] \<Longrightarrow>
   register_values (map (\<lambda>c. JStr [c]) s) st = Some (Inr (), st\<lparr>nodes := insert [] (nodes st)\<rparr>)"
proof (induction s arbitrary: st)
  case (Cons c s)
  have p: "printable [c]" "printable s" using Cons.prems(1) by (simp_all add: printable_def)
  show ?case
  proof (cases "s = []")
    case True
    with p show ?thesis by (simp add: register_value_def register_node_char)
  next
    case False
    with p Cons.IH show ?thesis by (simp add: register_value_def register_node_char)
  qed
qed simp

lemma register_values_prefix:
  "register_values vs st = Some (res, st') \<Longrightarrow> \<exists>as. st' = snd (register_all as st)"
proof (induction vs arbitrary: st)
  case Nil
  then show ?case by (intro exI [of _ "[]"]) simp
next
  case (Cons v vs)
  show ?case
  proof (cases "\<exists>a. v = JStr a")
    case True
    then obtain a where v: "v = JStr a" by blast
    obtain r1 st1 where rn: "register_node a st = (r1, st1)" by fastforce
    show ?thesis
    proof (cases r1)
      case (Inl e)
      with Cons.prems v rn have "st' = st1" by (simp add: register_value_def)
      moreover from rn Inl have "register_all [a] st = (Inl e, st1)" by simp
      ultimately show ?thesis by (metis snd_conv)
    next
      case (Inr u)
      with Cons.prems v rn have "register_values vs st1 = Some (res, st')" by (simp add: register_value_def)
      then obtain as where "st' = snd (register_all as st1)" using Cons.IH by blast
      with rn Inr have "st' = snd (register_all (a # as) st)" by simp
      then show ?thesis by blast
    qed
  next
    case False
    with Cons.prems have "st' = st"
      by (cases v) (auto simp: register_value_def split: if_splits)
    then show ?thesis by (intro exI [of _ "[]"]) simp
  qed
qed

lemma register_nodes_body_simulated:
  assumes "register_nodes_body values st = Some (r, st')"
  shows "\<exists>x. st' = snd (register_nodes x st)"
proof -
  have all: "\<exists>x. snd (register_all as st) = snd (register_nodes x st)" for as
    by (intro exI [of _ "Some as"]) (simp add: register_nodes_def split: prod.split sum.split)
  show ?thesis
  proof (cases "\<exists>vs. register_loop vs st = Some (r, st')")
    case True
    then obtain vs where "register_loop vs st = Some (r, st')" by blast
    then obtain res where "register_values vs st = Some (res, st')" by (rule register_loop_cases)
    then obtain as where "st' = snd (register_all as st)" using register_values_prefix by blast
    then show ?thesis using all by blast
  next
    case False
    with assms have "st' = st" by (auto simp: register_nodes_body_def split: sum.splits json.splits)
    then show ?thesis by (intro exI [of _ None]) (simp add: register_nodes_def)
  qed
qed

lemma apply_request_GetChain: "apply_request H nid GetChain st = Some st"
  by (simp add: apply_request_def handle_def full_chain_def)

lemma serve_simulated:
  assumes "serve H nid req st = Some (r, st')"
    and "\<forall>net order. req = HResolve net order \<longrightarrow> set order = nodes st \<and> distinct order"
  shows "\<exists>nreq. order_ok st nreq \<and> apply_request H nid nreq st = Some st'"
proof (cases req)
  case (HMine now)
  with assms(1) have "apply_request H nid (Mine now) st = Some st'"
    by (auto simp: serve_def apply_request_def handle_def)
  then show ?thesis by (intro exI [of _ "Mine now"]) (simp add: order_ok_def)
next
  case (HPostTransaction body)
  show ?thesis
  proof (cases "loads body")
    case None
    with assms(1) HPostTransaction have "st' = st" by (simp add: serve_def post_transaction_def)
    then show ?thesis by (intro exI [of _ GetChain]) (simp add: order_ok_def apply_request_GetChain)
  next
    case (Some v)
    with assms(1) HPostTransaction have "apply_request H nid (SubmitTx v) st = Some st'"
      by (auto simp: serve_def post_transaction_def apply_request_SubmitTx apfst_def map_prod_def
          split: prod.splits)
    then show ?thesis by (intro exI [of _ "SubmitTx v"]) (simp add: order_ok_def)
  qed
next
  case HGetChain
  with assms(1) have "st' = st" by (simp add: serve_def full_chain_def)
  then show ?thesis by (intro exI [of _ GetChain]) (simp add: order_ok_def apply_request_GetChain)
next
  case (HPostNodes body)
  show ?thesis
  proof (cases "loads body")
    case None
    with assms(1) HPostNodes have "st' = st" by (simp add: serve_def post_register_def)
    then show ?thesis by (intro exI [of _ GetChain]) (simp add: order_ok_def apply_request_GetChain)
  next
    case (Some v)
    with assms(1) HPostNodes obtain r0 where "register_nodes_body v st = Some (r0, st')"
      by (auto simp: serve_def post_register_def)
    then obtain x where "st' = snd (register_nodes x st)" using register_nodes_body_simulated by blast
    then have "apply_request H nid (RegisterNodes x) st = Some st'" by (simp add: apply_request_RegisterNodes)
    then show ?thesis by (intro exI [of _ "RegisterNodes x"]) (simp add: order_ok_def)
  qed
next
  case (HResolve net order)
  with assms have "apply_request H nid (Resolve net order) st = Some st'" "order_ok st (Resolve net order)"
    by (auto simp: serve_def apply_request_def handle_def order_ok_def apfst_def map_prod_def
        split: prod.splits)
  then show ?thesis by blast
qed

section \<open>Properties of the request layer\<close>

text \<open>
  C22: a registration whose body is JSON but not a dict (a list, a string, a
  number, \<^verbatim>\<open>null\<close>) makes \<^verbatim>\<open>values.get\<close> raise \<^verbatim>\<open>AttributeError\<close>: the
  client gets a 500 and the node is unchanged.
\<close>

theorem post_register_non_dict:
  assumes "loads body = Some v" and "\<forall>kvs. v \<noteq> JObj kvs"
  shows "post_register body st = Some (Reply (ServerError AttributeError), st)"
  using assms by (cases v) (simp_all add: post_register_def register_nodes_body_def py_get_def)

theorem post_register_non_dict_witness:
  "loads ''[1, 2]'' = Some (JList [JInt 1, JInt 2]) \<and> (\<forall>kvs. JList [JInt 1, JInt 2] \<noteq> JObj kvs) \<and>
   post_register ''[1, 2]'' ex_init = Some (Reply (ServerError AttributeError), ex_init)"
proof -
  have l: "loads ''[1, 2]'' = Some (JList [JInt 1, JInt 2])" by code_simp
  have n: "\<forall>kvs. JList [JInt 1, JInt 2] \<noteq> JObj kvs" by simp
  show ?thesis using l n post_register_non_dict [OF l n] by blast
qed

text \<open>
  C23: a \<^verbatim>\<open>nodes\<close> value that is a non-empty string, such as a single
  address not wrapped in a list, is iterated character by character; each
  one-character string has the empty network location, so the route answers
  201 and the only address it registers is the empty string.
\<close>

theorem register_nodes_string:
  assumes "py_get values ''nodes'' = Inr (JStr s)" and "printable s" and "s \<noteq> []"
  shows "register_nodes_body values st =
    Some (NodesAdded (insert [] (nodes st)), st\<lparr>nodes := insert [] (nodes st)\<rparr>)"
  using assms register_values_chars [OF assms(2,3)]
  by (simp add: register_nodes_body_def py_iter_def register_loop_def)

theorem register_nodes_string_witness:
  "py_get (JObj [(''nodes'', JStr ''http://node2:5000'')]) ''nodes'' = Inr (JStr ''http://node2:5000'') \<and>
   printable ''http://node2:5000'' \<and> ''http://node2:5000'' \<noteq> [] \<and>
   register_nodes_body (JObj [(''nodes'', JStr ''http://node2:5000'')]) ex_empty_node =
     Some (NodesAdded (insert [] (nodes ex_empty_node)), ex_empty_node\<lparr>nodes := insert [] (nodes ex_empty_node)\<rparr>)"
proof -
  have g: "py_get (JObj [(''nodes'', JStr ''http://node2:5000'')]) ''nodes'' = Inr (JStr ''http://node2:5000'')"
    by (simp add: py_get_def)
  have p: "printable ''http://node2:5000''" by (simp add: eval_simps)
  have n: "''http://node2:5000'' \<noteq> []" by simp
  show ?thesis using g p n register_nodes_string [OF g p n] by blast
qed

text \<open>
  On a body that decodes to a dict whose \<^verbatim>\<open>nodes\<close> value is a list of
  strings, the registration route on the request text does exactly what the
  list-typed handler \<open>Node.register_nodes\<close> does, so the claims proved of
  that handler (C14) hold of the route.
\<close>

theorem post_register_refines:
  assumes "loads body = Some values" and "py_get values ''nodes'' = Inr (JList (map JStr addrs))"
  shows "post_register body st = Some (apfst Reply (register_nodes (Some addrs) st))"
  using assms
  by (simp add: post_register_def register_nodes_body_def py_iter_def register_loop_def
      register_values_strings register_nodes_def split: prod.split sum.split)

theorem post_register_refines_witness:
  "loads (jsonify (JObj [(''nodes'', JList [JStr ''http://node2:5000''])])) =
     Some (JObj [(''nodes'', JList [JStr ''http://node2:5000''])]) \<and>
   py_get (JObj [(''nodes'', JList [JStr ''http://node2:5000''])]) ''nodes'' =
     Inr (JList (map JStr [''http://node2:5000''])) \<and>
   post_register (jsonify (JObj [(''nodes'', JList [JStr ''http://node2:5000''])])) ex_empty_node =
     Some (apfst Reply (register_nodes (Some [''http://node2:5000'']) ex_empty_node))"
proof -
  have l: "loads (jsonify (JObj [(''nodes'', JList [JStr ''http://node2:5000''])])) =
     Some (JObj [(''nodes'', JList [JStr ''http://node2:5000''])])" by code_simp
  have g: "py_get (JObj [(''nodes'', JList [JStr ''http://node2:5000''])]) ''nodes'' =
     Inr (JList (map JStr [''http://node2:5000'']))" by (simp add: py_get_def)
  show ?thesis using l g post_register_refines [OF l g] by blast
qed



text \<open>
  C25: every request to the two body-reading routes that is answered with
  status 400 (a body that is not JSON, a missing field, missing nodes) leaves
  the node's state unchanged, as the specification asks of a malformed request.
\<close>

theorem malformed_requests_keep_state:
  "(post_register body st = Some (r, st') \<longrightarrow> http_status r = 400 \<longrightarrow> st' = st) \<and>
   (post_transaction body st = (r2, st2) \<longrightarrow> http_status r2 = 400 \<longrightarrow> st2 = st)"
  by (auto simp: post_register_def post_transaction_def apfst_def map_prod_def
      split: option.splits prod.splits dest: register_nodes_body_400 new_transaction_endpoint_400)

theorem malformed_requests_keep_state_witness:
  "post_register ''{}'' ex_init = Some (Reply NodesMissing, ex_init) \<and> http_status (Reply NodesMissing) = 400 \<and>
   post_transaction ''{}'' ex_init = (Reply MissingValues, ex_init) \<and> http_status (Reply MissingValues) = 400 \<and>
   ex_init = ex_init"
proof -
  have l: "loads ''{}'' = Some (JObj [])" by code_simp
  have r: "post_register ''{}'' ex_init = Some (Reply NodesMissing, ex_init)"
    using l by (simp add: post_register_def register_nodes_body_def py_get_def)
  have t: "post_transaction ''{}'' ex_init = (Reply MissingValues, ex_init)"
    using l by (simp add: post_transaction_def new_transaction_endpoint_def py_in_def)
  show ?thesis using r t malformed_requests_keep_state [of "''{}''" ex_init "Reply NodesMissing" ex_init
      "Reply MissingValues" ex_init] by simp
qed

text \<open>
  C26: a registration, whatever its body, changes neither the chain nor the
  pending transactions: only the set of peers.
\<close>

theorem post_register_keeps_chain:
  assumes "post_register body st = Some (r, st')"
  shows "chain st' = chain st \<and> current_transactions st' = current_transactions st"
  using assms by (auto simp: post_register_def split: option.splits dest: register_nodes_body_only_nodes)

theorem post_register_keeps_chain_witness:
  "post_register ''{}'' ex_init = Some (Reply NodesMissing, ex_init) \<and>
   chain ex_init = chain ex_init \<and> current_transactions ex_init = current_transactions ex_init"
proof -
  have l: "loads ''{}'' = Some (JObj [])" by code_simp
  have r: "post_register ''{}'' ex_init = Some (Reply NodesMissing, ex_init)"
    using l by (simp add: post_register_def register_nodes_body_def py_get_def)
  show ?thesis using r post_register_keeps_chain [OF r] by blast
qed

text \<open>
  Every state a node reaches through requests over HTTP served one at a
  time, with bodies of any text, is a state of the request model of
  \<open>Node\<close>: each served request has the effect of a request of that model, or
  none. The claims proved there of every reachable state, among them the
  validity of the chain (C1), therefore extend to bodies of any text; they do
  not extend to overlapping requests, which \<open>Concurrency\<close> shows can break
  the chain (C16, C18).
\<close>

theorem served_reachable: "served H nid st \<Longrightarrow> reachable H nid st"
proof (induction rule: served.induct)
  case (start now)
  then show ?case by (rule reachable.start)
next
  case (step st req r st')
  then obtain nreq where "order_ok st nreq" "apply_request H nid nreq st = Some st'"
    using serve_simulated by blast
  with step.IH show ?case by (rule reachable.step)
qed

theorem served_reachable_witness:
  "served toy_sha ''node1'' (ex_init\<lparr>nodes := {''node2:5000''}\<rparr>) \<and>
   reachable toy_sha ''node1'' (ex_init\<lparr>nodes := {''node2:5000''}\<rparr>)"
proof -
  have s0: "served toy_sha ''node1'' ex_init" unfolding ex_init_def by (rule served.start)
  have r: "serve toy_sha ''node1'' (HPostNodes (jsonify (JObj [(''nodes'', JList [JStr ''http://node2:5000''])]))) ex_init =
      Some (Reply (NodesAdded {''node2:5000''}), ex_init\<lparr>nodes := {''node2:5000''}\<rparr>)"
    by code_simp
  have s1: "served toy_sha ''node1'' (ex_init\<lparr>nodes := {''node2:5000''}\<rparr>)"
    by (rule served.step [OF s0 _ r]) simp
  show ?thesis using s1 served_reachable [OF s1] by blast
qed

end
