(* ===== verification/PeerJson.thy ===== *)
theory PeerJson
  imports Requests
begin

text \<open>
  The resolver as the code runs it on what peers send
  (\<^verbatim>\<open>src/blockchain.py\<close>, \<^verbatim>\<open>valid_chain\<close> lines 27--51 and
  \<^verbatim>\<open>resolve_conflicts\<close> lines 54--81). \<^verbatim>\<open>response.json()['chain']\<close> is an
  untyped decoded value, and \<^verbatim>\<open>valid_chain\<close> works on it with Python's
  subscripts, \<^verbatim>\<open>len\<close>, \<^verbatim>\<open>!=\<close> and \<^verbatim>\<open>str\<close>; \<^verbatim>\<open>length > max_length\<close>
  compares an untyped value with an integer. \<open>Consensus\<close> models the same code
  on typed chains; here the transport is a function from a peer to the status
  code and body text of its reply, the body is decoded by \<open>Decode.loads\<close>,
  and every Python operation is applied to the decoded value as it is. Where
  Python's result depends on what the model does not represent, the value is
  \<open>None\<close>: \<^verbatim>\<open>str\<close> of a float (Python prints the rounded double) or of a list
  or dict (its \<^verbatim>\<open>repr\<close>), a float length compared with an integer, and the
  adoption of a chain that is not a list of block dicts, which leaves the
  typed state of the node. The main lemma shows that on peers running this
  program, which serve \<^verbatim>\<open>full_chain\<close> through \<^verbatim>\<open>jsonify\<close>, the untyped resolver
  does what the typed one does.
\<close>

section \<open>Python operations on a decoded chain\<close>

text \<open>
  \<^verbatim>\<open>chain[i]\<close> for \<open>i \<ge> 0\<close>: an element of a list, a one-character string of a
  string, \<^verbatim>\<open>IndexError\<close> past the end, \<^verbatim>\<open>KeyError\<close> on a dict (its keys are
  strings, the index an integer) and \<^verbatim>\<open>TypeError\<close> on a scalar.
\<close>

definition py_index :: "json \<Rightarrow> nat \<Rightarrow> py_error + json" where
  "py_index v i =
     (case v of
        JList xs \<Rightarrow> if i < length xs then Inr (xs ! i) else Inl IndexError
      | JStr s \<Rightarrow> if i < length s then Inr (JStr [s ! i]) else Inl IndexError
      | JObj _ \<Rightarrow> Inl KeyError
      | _ \<Rightarrow> Inl TypeError)"

text \<open>\<^verbatim>\<open>len(v)\<close>: of a list, a string or a dict; \<^verbatim>\<open>TypeError\<close> on a scalar.\<close>

definition py_len :: "json \<Rightarrow> py_error + nat" where
  "py_len v =
     (case v of
        JList xs \<Rightarrow> Inr (length xs)
      | JStr s \<Rightarrow> Inr (length s)
      | JObj kvs \<Rightarrow> Inr (length (remdups (map fst kvs)))
      | _ \<Rightarrow> Inl TypeError)"

text \<open>
  \<^verbatim>\<open>str(v)\<close> inside the f-string of \<^verbatim>\<open>valid_proof\<close>: defined here for
  \<^verbatim>\<open>None\<close>, booleans, integers and strings.
\<close>

fun py_str :: "json \<Rightarrow> string option" where
  "py_str JNull = Some ''None''"
| "py_str (JBool b) = Some (if b then ''True'' else ''False'')"
| "py_str (JInt n) = Some (str_int n)"
| "py_str (JStr s) = Some s"
| "py_str (JFloat _) = None"
| "py_str (JList _) = None"
| "py_str (JObj _) = None"

text \<open>\<^verbatim>\<open>valid_proof(last_proof, proof)\<close> on decoded values.\<close>

definition valid_proof_json :: "hasher \<Rightarrow> json \<Rightarrow> json \<Rightarrow> bool option" where
  "valid_proof_json H last_proof prf =
     (case (py_str last_proof, py_str prf) of
        (Some a, Some b) \<Rightarrow> Some (take 4 (H (a @ b)) = ''0000'')
      | _ \<Rightarrow> None)"

text \<open>
  An integer as Python compares it: \<^verbatim>\<open>bool\<close> is a subclass of \<^verbatim>\<open>int\<close>;
  comparing a string, a list, a dict or \<^verbatim>\<open>None\<close> with an integer raises
  \<^verbatim>\<open>TypeError\<close>.
\<close>

definition py_num :: "json \<Rightarrow> (py_error + int) option" where
  "py_num v =
     (case v of
        JInt n \<Rightarrow> Some (Inr n)
      | JBool b \<Rightarrow> Some (Inr (if b then 1 else 0))
      | JFloat _ \<Rightarrow> None
      | _ \<Rightarrow> Some (Inl TypeError))"

section \<open>The validator on a decoded chain\<close>

text \<open>
  The \<^verbatim>\<open>while current_index < len(chain)\<close> loop: \<open>n\<close> is \<^verbatim>\<open>len(chain)\<close>,
  computed afresh by Python at each test but fixed, as nothing changes the
  chain; the comparison \<^verbatim>\<open>block['previous_hash'] != self.hash(last_block)\<close>
  is false only for the string equal to the digest.
\<close>

function valid_chain_json_loop ::
  "hasher \<Rightarrow> json \<Rightarrow> nat \<Rightarrow> json \<Rightarrow> nat \<Rightarrow> (py_error + bool) option"
where
  "valid_chain_json_loop H chain_v n last_blk current_index =
     (if current_index < n then
        (case py_index chain_v current_index of
           Inl e \<Rightarrow> Some (Inl e)
         | Inr block \<Rightarrow>
             (case py_getitem block ''previous_hash'' of
                Inl e \<Rightarrow> Some (Inl e)
              | Inr ph \<Rightarrow>
                  if ph \<noteq> JStr (hash H last_blk) then Some (Inr False)
                  else
                    (case py_getitem last_blk ''proof'' of
                       Inl e \<Rightarrow> Some (Inl e)
                     | Inr lp \<Rightarrow>
                         (case py_getitem block ''proof'' of
                            Inl e \<Rightarrow> Some (Inl e)
                          | Inr p \<Rightarrow>
                              (case valid_proof_json H lp p of
                                 None \<Rightarrow> None
                               | Some ok \<Rightarrow>
                                   if \<not> ok then Some (Inr False)
                                   else valid_chain_json_loop H chain_v n block (current_index + 1))))))
      else Some (Inr True))"
  by pat_completeness auto
termination
  by (relation "measure (\<lambda>(H, chain_v, n, last_blk, current_index). n - current_index)") auto

declare valid_chain_json_loop.simps [simp del]

text \<open>\<^verbatim>\<open>last_block = chain[0]\<close>, then the loop up to \<^verbatim>\<open>len(chain)\<close>.\<close>

definition valid_chain_json :: "hasher \<Rightarrow> json \<Rightarrow> (py_error + bool) option" where
  "valid_chain_json H chain_v =
     (case py_index chain_v 0 of
        Inl e \<Rightarrow> Some (Inl e)
      | Inr b0 \<Rightarrow>
          (case py_len chain_v of
             Inl e \<Rightarrow> Some (Inl e)
           | Inr n \<Rightarrow> valid_chain_json_loop H chain_v n b0 1))"

section \<open>The resolver on reply texts\<close>

text \<open>\<^verbatim>\<open>requests.get(f'http://{node}/chain')\<close>: the status code and the body, or the exception raised.\<close>

type_synonym text_network = "string \<Rightarrow> py_error + int \<times> string"

text \<open>
  The peer loop: \<^verbatim>\<open>response.json()['length']\<close> and \<^verbatim>\<open>['chain']\<close>
  (\<open>Wire.peer_reply\<close>), then \<^verbatim>\<open>length > max_length and self.valid_chain(chain)\<close>,
  which does not run the validator when the comparison is false.
\<close>

fun resolve_loop_json ::
  "hasher \<Rightarrow> text_network \<Rightarrow> string list \<Rightarrow> int \<Rightarrow> json option
   \<Rightarrow> (py_error + int \<times> json option) option"
where
  "resolve_loop_json H net [] max_length new_chain = Some (Inr (max_length, new_chain))"
| "resolve_loop_json H net (node # rest) max_length new_chain =
     (case net node of
        Inl e \<Rightarrow> Some (Inl e)
      | Inr (status, body) \<Rightarrow>
          if status = 200 then
            (case peer_reply body of
               Inl e \<Rightarrow> Some (Inl e)
             | Inr (len_v, chain_v) \<Rightarrow>
                 (case py_num len_v of
                    None \<Rightarrow> None
                  | Some (Inl e) \<Rightarrow> Some (Inl e)
                  | Some (Inr len) \<Rightarrow>
                      if len > max_length then
                        (case valid_chain_json H chain_v of
                           None \<Rightarrow> None
                         | Some (Inl e) \<Rightarrow> Some (Inl e)
                         | Some (Inr ok) \<Rightarrow>
                             if ok then resolve_loop_json H net rest len (Some chain_v)
                             else resolve_loop_json H net rest max_length new_chain)
                      else resolve_loop_json H net rest max_length new_chain))
          else resolve_loop_json H net rest max_length new_chain)"

text \<open>The adopted chain as the node's typed chain: a list of block dicts.\<close>

definition chain_of_json :: "json \<Rightarrow> block list option" where
  "chain_of_json v = (case v of JList xs \<Rightarrow> those (map block_of_json xs) | _ \<Rightarrow> None)"

text \<open>\<^verbatim>\<open>if new_chain: self.chain = new_chain\<close>, with Python's truth value of the chain.\<close>

definition resolve_conflicts_json ::
  "hasher \<Rightarrow> text_network \<Rightarrow> string list \<Rightarrow> blockchain \<Rightarrow> ((py_error + bool) \<times> blockchain) option"
where
  "resolve_conflicts_json H net order st =
     (case resolve_loop_json H net order (int (length (chain st))) None of
        None \<Rightarrow> None
      | Some (Inl e) \<Rightarrow> Some (Inl e, st)
      | Some (Inr (_, new_chain)) \<Rightarrow>
          (case new_chain of
             None \<Rightarrow> Some (Inr False, st)
           | Some c \<Rightarrow>
               if py_truthy c then map_option (\<lambda>bs. (Inr True, st\<lparr>chain := bs\<rparr>)) (chain_of_json c)
               else Some (Inr False, st)))"

section \<open>Peers running this program\<close>

text \<open>
  Each peer answers \<^verbatim>\<open>GET /chain\<close> with its own \<^verbatim>\<open>full_chain\<close> (status 200,
  \<^verbatim>\<open>jsonify\<close> of the chain and its length); the typed network that
  \<open>Consensus\<close> sees for the same peers reports those chains as they arrive.
\<close>

definition serving_peers :: "(string \<Rightarrow> block list) \<Rightarrow> text_network" where
  "serving_peers peers n = Inr (200, jsonify (chain_body (peers n)))"

definition typed_peers :: "(string \<Rightarrow> block list) \<Rightarrow> network" where
  "typed_peers peers n =
     Inr \<lparr>status_code = 200, reported_length = int (length (peers n)),
          reported_chain = map canon_block (peers n)\<rparr>"

declare py_index_def [eval_simps] py_len_def [eval_simps] valid_proof_json_def [eval_simps]
  py_num_def [eval_simps] valid_chain_json_def [eval_simps] valid_chain_json_loop.simps [eval_simps]
  chain_of_json_def [eval_simps] resolve_conflicts_json_def [eval_simps]
  serving_peers_def [eval_simps] typed_peers_def [eval_simps]

section \<open>Lemmas\<close>

lemma hash_canon_self: "hash H (canon j) = hash H j"
  by (rule hash_canon) simp

lemma canon_block_idem [simp]: "canon_block (canon_block b) = canon_block b"
  by (simp add: canon_block_def canon_tx_def)

lemma canon_block_json: "canon (block_to_json (canon_block b)) = canon (block_to_json b)"
  by (simp add: canon_block_to_json canon_block_def tx_to_json_def canon_tx_def comp_def)

lemma getitem_block_json [simp]:
  "py_getitem (canon (block_to_json b)) ''previous_hash'' = Inr (JStr (previous_hash b))"
  "py_getitem (canon (block_to_json b)) ''proof'' = Inr (JInt (proof_val b))"
  by (simp_all add: canon_block_to_json py_getitem_def)

lemma valid_chain_json_loop_enc:
  "valid_chain_json_loop H (JList (map (\<lambda>b. canon (block_to_json b)) c)) (length c)
     (canon (block_to_json lb)) i = Some (Inr (valid_chain_loop H c lb i))"
proof (induction H c lb i rule: valid_chain_loop.induct)
  case (1 H c lb i)
  show ?case
  proof (cases "i < length c")
    case True
    with "1.IH" [OF True refl] show ?thesis
      by (subst valid_chain_json_loop.simps, subst valid_chain_loop.simps)
         (simp add: py_index_def hash_canon_self valid_proof_json_def valid_proof_def Let_def)
  next
    case False
    then show ?thesis
      by (subst valid_chain_json_loop.simps, subst valid_chain_loop.simps) simp
  qed
qed

lemma valid_chain_json_enc:
  "valid_chain_json H (JList (map (\<lambda>b. canon (block_to_json b)) c)) = Some (valid_chain H c)"
  by (cases c) (simp_all add: valid_chain_json_def valid_chain_def py_index_def py_len_def
      valid_chain_json_loop_enc [of H "_ # _", simplified])

lemma resolve_loop_json_serving:
  assumes "\<forall>n\<in>set order. list_all wf_block (peers n) \<and>
             netj n = Inr (200, jsonify (chain_body (peers n))) \<and>
             net n = Inr \<lparr>status_code = 200, reported_length = int (length (peers n)),
                          reported_chain = map canon_block (peers n)\<rparr>"
  shows "resolve_loop_json H netj order m
           (map_option (\<lambda>c. JList (map (\<lambda>b. canon (block_to_json b)) c)) nc) =
         Some (map_sum id (\<lambda>(m', nc'). (m', map_option (\<lambda>c. JList (map (\<lambda>b. canon (block_to_json b)) c)) nc'))
           (resolve_loop H net order m nc))"
  using assms
proof (induction order arbitrary: m nc)
  case (Cons n rest)
  have w: "list_all wf_block (peers n)"
    and nj: "netj n = Inr (200, jsonify (chain_body (peers n)))"
    and nt: "net n = Inr \<lparr>status_code = 200, reported_length = int (length (peers n)),
                          reported_chain = map canon_block (peers n)\<rparr>"
    and ih: "\<forall>n\<in>set rest. list_all wf_block (peers n) \<and>
             netj n = Inr (200, jsonify (chain_body (peers n))) \<and>
             net n = Inr \<lparr>status_code = 200, reported_length = int (length (peers n)),
                          reported_chain = map canon_block (peers n)\<rparr>"
    using Cons.prems by simp_all
  have ih2: "resolve_loop_json H netj rest (int (length (peers n)))
      (Some (JList (map (\<lambda>b. canon (block_to_json b)) (peers n)))) =
    Some (map_sum id (\<lambda>(m', nc'). (m', map_option (\<lambda>c. JList (map (\<lambda>b. canon (block_to_json b)) c)) nc'))
      (resolve_loop H net rest (int (length (peers n))) (Some (map canon_block (peers n)))))"
    using Cons.IH [OF ih, of "int (length (peers n))" "Some (map canon_block (peers n))"]
    by (simp add: comp_def canon_block_json id_def)
  show ?case
    using w nj nt Cons.IH [OF ih] ih2
    by (cases "valid_chain H (peers n)")
       (simp_all add: peer_reply_chain_body py_num_def valid_chain_json_enc valid_chain_canon id_def)
qed simp

text \<open>
  A one-character string passes the validator: \<^verbatim>\<open>chain[0]\<close> is that
  character and the loop does not run. The resolver would adopt it as the
  node's chain when its reported length is large enough.
\<close>

lemma valid_chain_json_one_char: "valid_chain_json H (JStr [c]) = Some (Inr True)"
  by (simp add: valid_chain_json_def py_index_def py_len_def valid_chain_json_loop.simps)

section \<open>The resolver on honest peers\<close>

text \<open>
  C15: when every peer runs this program and answers \<^verbatim>\<open>GET /chain\<close> with
  its own \<^verbatim>\<open>full_chain\<close>, the resolver, reading the reply texts with
  \<^verbatim>\<open>response.json()\<close> and validating the decoded values with Python's
  operations, returns and does exactly what the typed resolver of
  \<open>Consensus\<close> does on the chains as they arrive; so the claims proved of
  the typed resolver (C4, C5, C8) hold of the code on such peers.
\<close>

theorem resolve_json_refines:
  assumes "\<forall>n\<in>set order. list_all wf_block (peers n)"
  shows "resolve_conflicts_json H (serving_peers peers) order st =
         Some (resolve_conflicts H (typed_peers peers) order st)"
proof -
  have net_ok: "\<forall>n\<in>set order. list_all wf_block (peers n) \<and>
      serving_peers peers n = Inr (200, jsonify (chain_body (peers n))) \<and>
      typed_peers peers n = Inr \<lparr>status_code = 200, reported_length = int (length (peers n)),
                          reported_chain = map canon_block (peers n)\<rparr>"
    using assms by (simp add: serving_peers_def typed_peers_def)
  show ?thesis
proof (cases "resolve_loop H (typed_peers peers) order (int (length (chain st))) None")
  case (Inl e)
  then show ?thesis using resolve_loop_json_serving [OF net_ok, of H "int (length (chain st))" None]
    by (simp add: resolve_conflicts_json_def resolve_conflicts_def)
next
  case (Inr p)
  obtain m' nc' where p: "p = (m', nc')" by fastforce
  show ?thesis
  proof (cases nc')
    case None
    with Inr p show ?thesis using resolve_loop_json_serving [OF net_ok, of H "int (length (chain st))" None]
      by (simp add: resolve_conflicts_json_def resolve_conflicts_def)
  next
    case (Some c)
    from resolve_loop_result [of H "typed_peers peers" order _ None m' nc'] Inr p Some
    obtain n where "n \<in> set order" "c = map canon_block (peers n)"
      by (auto simp: typed_peers_def)
    then have cc: "map canon_block c = c" by simp
    have dec: "chain_of_json (JList (map (\<lambda>b. canon (block_to_json b)) c)) = Some (map canon_block c)"
      using those_block_of_json [of c] by (simp add: chain_of_json_def comp_def)
    from Inr p Some cc dec show ?thesis
      using resolve_loop_json_serving [OF net_ok, of H "int (length (chain st))" None]
      by (simp add: resolve_conflicts_json_def resolve_conflicts_def)
  qed
qed
qed

theorem resolve_json_refines_witness:
  "list_all wf_block (ex_chain 1) \<and>
   resolve_conflicts_json toy_sha (serving_peers (\<lambda>_. ex_chain 1)) [''node2:5000''] (ex_node [ex_genesis]) =
     Some (resolve_conflicts toy_sha (typed_peers (\<lambda>_. ex_chain 1)) [''node2:5000''] (ex_node [ex_genesis]))"
proof -
  have w: "list_all wf_block (ex_chain 1)"
    by (simp add: ex_genesis_def ex_next_def wf_block_def eval_simps)
  then have h: "\<forall>n\<in>set [''node2:5000'']. list_all wf_block ((\<lambda>_. ex_chain 1) n)" by simp
  show ?thesis using w resolve_json_refines [OF h] by blast
qed

end
