(* ===== verification/Spec2Isabelle.thy ===== *)
theory Spec2Isabelle
  imports Prelude Json Decode Block ProofOfWork Validator Chain Consensus Registry Node Concurrency
    DecodeWf Wire Tamper Requests PeerJson
begin

text \<open>
  \<^bold>\<open>A verified model of \<^verbatim>\<open>src/blockchain.py\<close>.\<close>

  \<^medskip>
  \<^bold>\<open>The program.\<close> One Python file holds a class \<^verbatim>\<open>Blockchain\<close> and a
  Flask application around one instance of it. The class keeps three pieces
  of state: the chain (a list of block dicts), the pending transactions and
  the set of peer addresses. Its parts, leaves first, and the theories that
  model them:
  \<^item> Hasher (\<^verbatim>\<open>Blockchain.hash\<close>, lines 124--131): SHA-256 of
    \<^verbatim>\<open>json.dumps(block, sort_keys=True)\<close>. Theory \<open>Json\<close> models the encoder
    (\<open>dumps\<close>, with \<^verbatim>\<open>ensure_ascii\<close> escaping and key sorting) and theory
    \<open>Block\<close> the transaction and block dicts as records (\<open>transaction\<close>,
    \<open>block\<close>), the dict a block is hashed as (\<open>block_to_json\<close>, in the
    source's insertion order) and \<open>hash\<close>. SHA-256 itself belongs to
    \<^verbatim>\<open>hashlib\<close>, not to the repository: every operation takes the digest
    as a parameter \<open>H :: string \<Rightarrow> string\<close>, and every theorem holds for
    all such functions.
  \<^item> Proof-of-work engine (\<^verbatim>\<open>valid_proof\<close>, \<^verbatim>\<open>proof_of_work\<close>, lines
    139--162), theory \<open>ProofOfWork\<close>: the puzzle on the f-string
    \<^verbatim>\<open>f'{last_proof}{proof}'\<close> (\<open>str_int\<close> of \<open>Prelude\<close> is Python's
    \<^verbatim>\<open>str\<close> of an integer) and the unbounded search, a
    \<^theory_text>\<open>partial_function (option)\<close> in which \<open>None\<close> is a search that never
    returns.
  \<^item> Chain (\<^verbatim>\<open>__init__\<close>, \<^verbatim>\<open>new_block\<close>, \<^verbatim>\<open>new_transaction\<close>,
    \<^verbatim>\<open>last_block\<close>, lines 10--15 and 84--136), theory \<open>Chain\<close>: the object
    is the record \<open>blockchain\<close>; each method maps the state to its result
    (\<open>Inl\<close> of a Python exception, or \<open>Inr\<close> of the value) and the state
    after it, which is the state at the moment of the exception when one is
    raised. \<^verbatim>\<open>time()\<close> is the argument \<open>now\<close>.
  \<^item> Validator (\<^verbatim>\<open>valid_chain\<close>, lines 27--51), theory \<open>Validator\<close>: the
    index loop \<open>valid_chain_loop\<close>, terminating by the measure
    \<open>length chain - current_index\<close>, and its specification \<open>chain_links\<close>
    (every block hash-linked to and solving the puzzle after its predecessor).
  \<^item> Consensus resolver (\<^verbatim>\<open>resolve_conflicts\<close>, lines 54--81), theory
    \<open>Consensus\<close>: the loop over the peers, \<open>resolve_loop\<close>. The transport
    (\<^verbatim>\<open>requests.get\<close>) is a function \<open>network\<close> from a peer to its response
    or to the exception raised; the order in which Python visits the set
    \<^verbatim>\<open>self.nodes\<close> is an argument. Its specification \<open>best_chain\<close>
    chooses, among the valid responses, the first of greatest reported length
    above the local length.
  \<^item> Peer registry (\<^verbatim>\<open>register_node\<close>, lines 18--24), theory \<open>Registry\<close>:
    \<open>register_node\<close> adds \<open>urlparse_netloc\<close> of the address to the set,
    where \<open>urlparse_netloc\<close> (with \<open>url_clean\<close>, \<open>after_scheme\<close> and
    \<open>netloc_of\<close>) is the netloc computation of \<^verbatim>\<open>urllib.parse.urlsplit\<close>,
    modelled from the library's source; \<open>register_all\<close> is the loop of the
    \<^verbatim>\<open>/nodes/register\<close> handler.
  \<^item> The node (the Flask handlers, lines 164--255), theory \<open>Node\<close>: one
    handler per route (\<open>mine_endpoint\<close> over \<open>mine\<close>,
    \<open>new_transaction_endpoint\<close>, \<open>full_chain\<close>, \<open>register_nodes\<close>,
    \<open>consensus\<close>), each from the state to a \<open>reply\<close> (the status and body
    the route returns, or \<open>ServerError\<close> for an exception Flask turns into a
    500) and the new state. The body of \<^verbatim>\<open>/transactions/new\<close> is any decoded
    JSON value, and Python's \<^verbatim>\<open>k in values\<close> and \<^verbatim>\<open>values[k]\<close> on it are
    \<open>py_in\<close> and \<open>py_getitem\<close> of \<open>Json\<close>. A \<open>request\<close> datatype names the
    routes, \<open>handle\<close> dispatches them, \<open>apply_request\<close> is a request's
    effect on the state, \<open>run\<close> a sequence of requests and the inductive
    \<open>reachable\<close> the states a node can reach from its constructor.
  \<^item> The threaded server (\<^verbatim>\<open>app.run\<close>, line 259), theory \<open>Concurrency\<close>:
    Flask serves each request on its own thread and nothing takes a lock. A
    \<open>server\<close> is the node's state with the \<^verbatim>\<open>/mine\<close> threads in flight
    (\<open>mine_thread\<close>: searching, solved, rewarded); \<open>server_step\<close> runs one
    \<open>event\<close>, a statement of a \<^verbatim>\<open>mine()\<close> thread or another whole request,
    and \<open>run_events\<close> an interleaving.
  \<^item> The wire (\<^verbatim>\<open>full_chain\<close> and Flask's \<^verbatim>\<open>jsonify\<close>, lines
    213--219, read by \<^verbatim>\<open>response.json()\<close> at lines 68--69): theory
    \<open>Decode\<close> models \<^verbatim>\<open>json.loads\<close> after CPython's scanner (\<open>loads\<close>,
    the mutually recursive \<open>parse_value\<close>, \<open>parse_array\<close>,
    \<open>parse_members\<close>, \<open>parse_object\<close>, with \<open>parse_string\<close> and
    \<open>parse_number\<close>; a repeated key keeps its last value, \<open>dict_set\<close>).
    The parser carries fuel, the input length plus one: every call that
    recurses has consumed at least one character, so the fuel never runs out on
    any input and \<open>None\<close> means only a syntax error. Theory \<open>DecodeWf\<close>
    shows that what the decoder returns lies in the encoder's domain. Theory \<open>Wire\<close> holds
    \<open>jsonify\<close> (compact separators, sorted keys, a final newline), the body
    \<open>chain_body\<close> of \<^verbatim>\<open>/chain\<close>, the two subscripts the resolver takes
    (\<open>peer_reply\<close>) and \<open>decode_chain\<close>, which reads the decoded dicts as
    block records (\<open>block_of_json\<close>, \<open>tx_of_json\<close>).
  \<^item> The resolver on what peers send, theory \<open>PeerJson\<close>: the transport
    is a \<open>text_network\<close>, from a peer to the status code and body text of
    its reply; \<open>resolve_conflicts_json\<close> and \<open>resolve_loop_json\<close> read
    the body with \<open>peer_reply\<close> and compare the decoded length with
    \<open>py_num\<close>, and \<open>valid_chain_json\<close> (its loop
    \<open>valid_chain_json_loop\<close>, terminating by the measure
    \<^verbatim>\<open>len(chain) - current_index\<close>) validates the decoded value with
    Python's subscripts (\<open>py_index\<close>, \<open>py_getitem\<close>), \<^verbatim>\<open>len\<close>
    (\<open>py_len\<close>) and \<^verbatim>\<open>str\<close> (\<open>py_str\<close>, in \<open>valid_proof_json\<close>).
    \<open>serving_peers\<close> are peers running this program.
  \<^item> Tamper evidence, theory \<open>Tamper\<close>: what the hash links protect, under
    the assumption, stated as a hypothesis, that the digest is injective.
  \<^item> The request layer (\<^verbatim>\<open>request.get_json()\<close> and the body-reading routes,
    lines 200--211 and 222--239), theory \<open>Requests\<close>: \<open>post_transaction\<close>
    and \<open>post_register\<close> take the request text, decode it with \<open>loads\<close>
    (Flask's 400 when it is not JSON, \<open>BadRequest\<close>) and run the handler;
    \<open>register_nodes_body\<close> is the registration route on any decoded body,
    with \<^verbatim>\<open>values.get\<close> (\<open>py_get\<close>), the iteration (\<open>py_iter\<close>) and
    \<^verbatim>\<open>register_node\<close> on any element (\<open>register_value\<close>,
    \<open>register_values\<close>, \<open>register_loop\<close>); \<open>http_status\<close> gives each
    reply's status code. \<open>serve\<close> dispatches an \<open>http_request\<close> (one
    per route, bodies as text) and the inductive \<open>served\<close> is the set of
    states reachable through served requests.
  The components interact through shared state only: mining reads the last
  block's proof and appends a block whose previous hash is the Hasher's digest
  of the last block; resolution runs the Validator on each peer chain and
  swaps the chain.

  \<^medskip>
  \<^bold>\<open>What is proved.\<close> The claims C1--C26, and the lemmas they rest on.
  \<^item> Invariant (\<open>Node\<close>): in every state reachable by requests served one at
    a time, the chain is non-empty and \<^verbatim>\<open>valid_chain\<close> accepts it (C1),
    by rule induction over \<open>reachable\<close>, one lemma per request. Under
    Flask's threaded server it does not hold: see C16 and C18.
  \<^item> Engine (\<open>ProofOfWork\<close>): \<^verbatim>\<open>proof_of_work\<close> returns the least
    non-negative solution and diverges when there is none (C2), so it returns
    exactly when a solution exists.
  \<^item> Validator: the loop equals its specification and raises on the empty
    chain (C3).
  \<^item> Resolver: it refines \<open>best_chain\<close> when every peer answers with a
    non-empty chain (C4); whatever the peers answer, it either leaves the node
    untouched or swaps in a valid chain a peer sent with a reported length above
    the local one, atomically (C5); an unreachable peer aborts the whole
    resolution (C8). The lemma \<open>resolve_adopts_reported_length\<close> shows that it
    trusts the reported length.
  \<^item> Mining and transactions: the block \<^verbatim>\<open>mine()\<close> seals and when it
    returns (C6); the index \<^verbatim>\<open>new_transaction\<close> returns on runs without
    resolution (C7). The lemmas \<open>scenario_transaction_then_mine\<close> and
    \<open>resolve_breaks_transaction_index\<close> run the scenario of the specification
    and a resolution after which that index is wrong.
  \<^item> Hasher: the digest does not depend on the insertion order of a block's
    keys (C9); \<open>valid_proof_concat_ambiguous\<close> shows that the puzzle text
    does not separate the two proofs.
  \<^item> Registry: an address with a scheme registers its host and port (C10);
    one without \<^verbatim>\<open>//\<close> registers the empty string (C11).
  \<^item> Handlers: the transaction route on a JSON object (C12) and on any other
    body, which it answers with a 500 (C13); the registration route adds the
    locations (C14); \<open>register_nodes_partial\<close> shows that a failing list is
    applied partially.
  \<^item> Interleavings (\<open>Concurrency\<close>): two overlapping \<^verbatim>\<open>/mine\<close>
    requests (C16), or a resolution during a search (C18), leave a chain
    \<^verbatim>\<open>valid_chain\<close> rejects; a transaction submitted during a search lands in
    the block that search seals (C17), as the specification asks.
  \<^item> Wire: a chain served on \<^verbatim>\<open>/chain\<close> arrives with its length and its
    blocks, and validates the same (C19). It rests on the round trip of the
    library models, \<open>loads_dumps_with\<close> (\<^verbatim>\<open>json.loads\<close> reads back what
    \<^verbatim>\<open>json.dumps\<close> prints, by induction on the value) and on
    \<open>loads_wf\<close> (what \<^verbatim>\<open>json.loads\<close> returns is well-formed, by the parser's
    mutual induction).
  \<^item> Resolver on reply texts (\<open>PeerJson\<close>): when every peer runs this
    program, the untyped resolver returns and does exactly what the typed one
    of \<open>Consensus\<close> does on the chains as they arrive (C15, by induction on
    the peers, with the untyped validator equal to the typed one on encoded
    chains), so C4, C5 and C8 hold of the code on such peers. A
    one-character string passes the untyped validator
    (\<open>valid_chain_json_one_char\<close>).
  \<^item> Tamper evidence: under an injective digest, changing any block that has a
    successor makes \<^verbatim>\<open>valid_chain\<close> reject the chain (C20), since the
    encoder separates blocks with different canonical forms; the last block's
    transactions are checked by nothing (C21).
  \<^item> Requests: a registration body that is not a dict gets a 500 (C22); a
    \<^verbatim>\<open>nodes\<close> value that is a string registers only the empty location
    (C23); a transaction printed by \<^verbatim>\<open>jsonify\<close> is queued as sent, up to the
    order of dict items (C24); every 400 answer leaves the state unchanged
    (C25); a registration never touches the chain or the pending transactions
    (C26). The lemma \<open>served_reachable\<close> shows that every state reached
    through requests with bodies of any text, served one at a time, is
    reachable in the request model of \<open>Node\<close>.
  Claims with hypotheses have witnesses evaluated under the stand-in digests
  \<open>toy_sha\<close> of \<open>Prelude\<close> and \<open>toy_sha_b\<close> of \<open>Concurrency\<close>, on example blocks and chains (\<open>ex_genesis\<close>,
  \<open>ex_chain\<close>) whose links hold by construction.

  \<^medskip>
  \<^bold>\<open>Modelling decisions.\<close> Following the specification's design notes, a block
  and a transaction are records with the dict's fields: a peer's chain is a
  list of such records, so peer dicts with missing keys or values of the wrong
  type (a \<^verbatim>\<open>KeyError\<close> or \<^verbatim>\<open>TypeError\<close> inside \<^verbatim>\<open>valid_chain\<close>) are outside
  the model. Transaction values are arbitrary JSON values. A float (the
  timestamp) is represented by the text \<^verbatim>\<open>repr\<close> gives it, which is all
  that the encoder prints. Python integers are \<open>int\<close>. The Validator and
  the resolver recurse on a list, and the one unbounded loop, the
  proof-of-work search, is a partial function whose termination is proved
  exactly where a solution exists. Only the decoder carries fuel, and the
  fuel \<open>loads\<close> gives it is always enough (see the wire above).

  \<^medskip>
  \<^bold>\<open>Not modelled.\<close> In \<open>PeerJson\<close> the value \<open>None\<close> marks what
  the model does not represent: \<^verbatim>\<open>str\<close> of a float (Python prints the
  rounded double) or of a list or dict (its \<^verbatim>\<open>repr\<close>) inside
  \<^verbatim>\<open>valid_proof\<close>, a float length compared with an integer, and the adoption
  of a chain that is not a list of block dicts, which leaves the typed state
  of the node. Floats in a decoded block are hashed as the text they arrived
  in, which is what Python prints when that text is a float's \<^verbatim>\<open>repr\<close>, as
  it is for the timestamps this program sends. A registration whose iteration reaches a false value
  that is not a string (\<^verbatim>\<open>null\<close>, \<^verbatim>\<open>false\<close>, \<^verbatim>\<open>0\<close>, an empty list or
  dict): \<^verbatim>\<open>urlparse\<close> then reads it as bytes and the set receives the bytes
  object \<^verbatim>\<open>b''\<close>, which the model's set of strings cannot hold, so
  \<open>register_value\<close> returns \<open>None\<close> there. Flask's content-type check in
  \<^verbatim>\<open>get_json\<close> (a 415 for a request not sent as JSON) is not modelled: requests
  are taken to be sent as JSON. The \<^verbatim>\<open>urlsplit\<close> validation of a bracketed IPv6 host and its
  check of non-ASCII locations are not modelled. In \<open>Concurrency\<close> a statement of
  \<^verbatim>\<open>mine()\<close> and every other request is atomic; finer interleavings (inside
  a method, between bytecodes) only add behaviours, so the runs exhibited there
  are runs of the program, but no claim there says that some interleaving is
  impossible. The decoder handles 8-bit characters: a \<^verbatim>\<open>\u\<close> escape
  above \<^verbatim>\<open>00ff\<close> is read as an error, and a float literal is kept as its
  text, which is what the encoder prints back, and its truth value is that of
  \<^verbatim>\<open>float()\<close> of the text, underflow to \<open>0.0\<close> included (\<open>Requests.float_nonzero\<close>); \<open>block_of_json\<close> reads a
  block dict only with exactly its five keys and values of the record's
  types. An injective digest is a hypothesis of C20 only: no function from all
  strings to 64 hex digits is injective, so C20 says what the links protect
  against a digest without collisions on the blocks at hand. Process start-up,
  the \<^verbatim>\<open>uuid4\<close> node identifier (a parameter \<open>nid\<close>), Flask's
  routing and response serialisation beyond the status codes, and the HTTP
  transport (the \<open>network\<close> parameter of \<open>Consensus\<close>) are not modelled.
\<close>

end
